theory Spec2Isabelle
  imports Main "HOL-Library.AList"
begin

section \<open>Strings, integers and formatting\<close>

text \<open>
  The scripts of the repository (\<^verbatim>\<open>cleanup_and_fix.py\<close>, \<^verbatim>\<open>fix_vmrk_files.py\<close>,
  \<^verbatim>\<open>cleanup_files.py\<close>) are Python. Exceptions are values of the type \<open>error\<close>; a
  function that can raise returns \<open>error + 'a\<close>, with \<open>Inl\<close> for the exception.
  Directory and file names are modelled as ASCII strings.
\<close>

datatype error =
    ValueError
  | IndexError
  | TypeError
  | FileNotFoundError
  | NotADirectoryError
  | IsADirectoryError
  | PermissionError
  | SameFileError

text \<open>\<^verbatim>\<open>s.split(sep)\<close> for a one-character separator: every occurrence cuts, and the
  result always has at least one field.\<close>

fun split_on :: "char \<Rightarrow> string \<Rightarrow> string list" where
  "split_on sep [] = [[]]"
| "split_on sep (c # cs) =
     (if c = sep then [] # split_on sep cs
      else (case split_on sep cs of
              [] \<Rightarrow> [[c]]
            | w # ws \<Rightarrow> (c # w) # ws))"

text \<open>\<^verbatim>\<open>s.startswith(p)\<close>.\<close>

fun startswith :: "string \<Rightarrow> string \<Rightarrow> bool" where
  "startswith s [] = True"
| "startswith [] (p # ps) = False"
| "startswith (c # cs) (p # ps) = (c = p \<and> startswith cs ps)"

definition is_digit :: "char \<Rightarrow> bool" where
  "is_digit c = (48 \<le> (of_char c :: nat) \<and> (of_char c :: nat) \<le> 57)"

definition digit_val :: "char \<Rightarrow> nat" where
  "digit_val c = of_char c - 48"

text \<open>The characters that \<^verbatim>\<open>int()\<close> strips from an ASCII string as white space: TAB,
  LF, VT, FF, CR and the blank.\<close>

definition is_space :: "char \<Rightarrow> bool" where
  "is_space c = ((of_char c :: nat) \<in> {9, 10, 11, 12, 13, 32})"

definition strip :: "string \<Rightarrow> string" where
  "strip s = rev (dropWhile is_space (rev (dropWhile is_space s)))"

text \<open>The digits of a decimal literal after its first digit: a digit, or one underscore
  followed by a digit. The accumulator is the value read so far.\<close>

fun int_digits :: "nat \<Rightarrow> string \<Rightarrow> nat option" where
  "int_digits acc [] = Some acc"
| "int_digits acc [c] = (if is_digit c then Some (10 * acc + digit_val c) else None)"
| "int_digits acc (c # d # cs) =
     (if is_digit c then int_digits (10 * acc + digit_val c) (d # cs)
      else if c = CHR ''_'' \<and> is_digit d then int_digits (10 * acc + digit_val d) cs
      else None)"

definition int_literal :: "string \<Rightarrow> nat option" where
  "int_literal s =
     (case s of
        [] \<Rightarrow> None
      | c # cs \<Rightarrow> if is_digit c then int_digits (digit_val c) cs else None)"

text \<open>\<^verbatim>\<open>int(s)\<close> on an ASCII string, base ten: surrounding white space is stripped, one
  sign is allowed, then a decimal literal; anything else raises \<^verbatim>\<open>ValueError\<close>. In a
  string with characters beyond ASCII \<^verbatim>\<open>int\<close> accepts further digits and white space;
  such strings, and the limit of 4300 digits, which no file name reaches, are outside
  the model (\<open>ascii_name\<close> states the first restriction where a theorem needs it).\<close>

definition ascii_name :: "string \<Rightarrow> bool" where
  "ascii_name s = list_all (\<lambda>c. (of_char c :: nat) < 128) s"

definition py_int :: "string \<Rightarrow> error + int" where
  "py_int s =
     (case strip s of
        [] \<Rightarrow> Inl ValueError
      | c # cs \<Rightarrow>
          if c = CHR ''+'' then
            (case int_literal cs of None \<Rightarrow> Inl ValueError | Some n \<Rightarrow> Inr (int n))
          else if c = CHR ''-'' then
            (case int_literal cs of None \<Rightarrow> Inl ValueError | Some n \<Rightarrow> Inr (- int n))
          else
            (case int_literal (c # cs) of None \<Rightarrow> Inl ValueError | Some n \<Rightarrow> Inr (int n)))"

text \<open>Decimal rendering of a natural number, most significant digit first.\<close>

definition digit_char :: "nat \<Rightarrow> char" where
  "digit_char d = ''0123456789'' ! d"

function decimal :: "nat \<Rightarrow> string" where
  "decimal n = (if n < 10 then [digit_char n] else decimal (n div 10) @ [digit_char (n mod 10)])"
  by pat_completeness auto
termination
  by (relation "measure id") auto

declare decimal.simps [simp del]

text \<open>The format specification \<^verbatim>\<open>{n:03d}\<close>: decimal, padded with zeros after the sign to
  a total width of three; longer renderings are not cut.\<close>

definition zfill :: "nat \<Rightarrow> string \<Rightarrow> string" where
  "zfill w s = replicate (w - length s) CHR ''0'' @ s"

definition fmt_03d :: "int \<Rightarrow> string" where
  "fmt_03d n =
     (if n < 0 then CHR ''-'' # zfill 2 (decimal (nat (- n)))
      else zfill 3 (decimal (nat n)))"

section \<open>The filename mapper\<close>

text \<open>\<^verbatim>\<open>int(subject_dir.name.split('-')[1])\<close>, the first statement of both versions of
  \<^verbatim>\<open>get_expected_filename\<close> and the sort key of both walkers.\<close>

definition subject_num :: "string \<Rightarrow> error + int" where
  "subject_num name =
     (case split_on CHR ''-'' name of
        _ # field # _ \<Rightarrow> py_int field
      | _ \<Rightarrow> Inl IndexError)"

text \<open>\<^verbatim>\<open>get_expected_filename\<close> of \<^verbatim>\<open>cleanup_and_fix.py\<close>. \<open>None\<close> is Python's \<^verbatim>\<open>None\<close>.\<close>

definition get_expected_filename :: "string \<Rightarrow> string \<Rightarrow> error + string option" where
  "get_expected_filename name file_type =
     (case subject_num name of
        Inl e \<Rightarrow> Inl e
      | Inr n \<Rightarrow>
          if 1 \<le> n \<and> n \<le> 56 then
            Inr (Some (''COCOA_'' @ fmt_03d (n + 12) @ ''_VO.'' @ file_type))
          else if 57 \<le> n \<and> n \<le> 77 then
            Inr (Some (''COCOA_'' @ fmt_03d (n + 13) @ ''_VO.'' @ file_type))
          else if 78 \<le> n \<and> n \<le> 96 then
            Inr (Some (''COCOA_'' @ fmt_03d (n + 14) @ ''_VO.'' @ file_type))
          else if 111 \<le> n \<and> n \<le> 127 then
            Inr (Some (''SASA_'' @ fmt_03d (n - 96) @ ''_VO.'' @ file_type))
          else Inr None)"

text \<open>\<^verbatim>\<open>get_expected_filename\<close> of \<^verbatim>\<open>fix_vmrk_files.py\<close>, the earlier script: one offset
  for the whole COCOA range and a generic name instead of \<^verbatim>\<open>None\<close>.\<close>

definition fix_vmrk_get_expected_filename :: "string \<Rightarrow> string \<Rightarrow> error + string option" where
  "fix_vmrk_get_expected_filename name file_type =
     (case subject_num name of
        Inl e \<Rightarrow> Inl e
      | Inr n \<Rightarrow>
          if 1 \<le> n \<and> n \<le> 96 then
            Inr (Some (''COCOA_'' @ fmt_03d (n + 13) @ ''_VO.'' @ file_type))
          else if 111 \<le> n \<and> n \<le> 127 then
            Inr (Some (''SASA_'' @ fmt_03d (n - 96) @ ''_VO.'' @ file_type))
          else Inr (Some (''SUBJECT_'' @ fmt_03d n @ ''_VO.'' @ file_type)))"

text \<open>The reading of \<^verbatim>\<open>{n:03d}\<close> that the specification gives for its table: the three
  decimal digits of a number below one thousand.\<close>

definition three_digits :: "int \<Rightarrow> string" where
  "three_digits n =
     [digit_char (nat n div 100), digit_char (nat n div 10 mod 10), digit_char (nat n mod 10)]"

section \<open>The file system\<close>

text \<open>
  A file carries its contents and the metadata that \<^verbatim>\<open>shutil.copy2\<close> copies: the
  permission bits (read and write permission of the user running the script) and the
  modification time. A directory is the list of its entries in the order in which the
  operating system lists them; the names of a directory that exists are distinct
  (\<open>wf_entries\<close>). Paths are relative to \<^verbatim>\<open>base_dir\<close>, the directory of the script.
  Symbolic links are outside the model. Every directory of the tree on which a script
  starts can be listed, searched and written; the one change to that is the scripts'
  own: \<^verbatim>\<open>os.chmod(path, 0o644)\<close> on a directory takes its search permission away (section
  Cleanup). The user is not privileged: a file without read permission cannot be opened
  for reading, and a file without write permission cannot be opened for writing. An
  operation either fails and changes nothing or succeeds as a whole.
\<close>

record regfile =
  contents :: string
  readable :: bool
  writable :: bool
  mtime :: int

datatype node = File regfile | Dir "(string \<times> node) list"

type_synonym entries = "(string \<times> node) list"

type_synonym path = "string list"

fun is_dir :: "node \<Rightarrow> bool" where
  "is_dir (Dir es) = True"
| "is_dir (File f) = False"

text \<open>What listing a path yields: the entries of a directory, nothing for a file.\<close>

fun children :: "node \<Rightarrow> entries" where
  "children (Dir es) = es"
| "children (File f) = []"

fun wf_node :: "node \<Rightarrow> bool" and wf_entries :: "entries \<Rightarrow> bool" where
  "wf_node (File f) = True"
| "wf_node (Dir es) = wf_entries es"
| "wf_entries [] = True"
| "wf_entries ((n, x) # es) = (n \<notin> fst ` set es \<and> wf_node x \<and> wf_entries es)"

text \<open>Matching a name against a glob pattern in which \<^verbatim>\<open>*\<close> is the only wildcard (the
  patterns of the scripts have no other), case-sensitively.\<close>

fun glob_match :: "string \<Rightarrow> string \<Rightarrow> bool" where
  "glob_match [] s = (s = [])"
| "glob_match (p # ps) [] = (p = CHR ''*'' \<and> glob_match ps [])"
| "glob_match (p # ps) (c # cs) =
     (if p = CHR ''*'' then glob_match ps (c # cs) \<or> glob_match (p # ps) cs
      else p = c \<and> glob_match ps cs)"

text \<open>\<^verbatim>\<open>list(d.glob(pattern))\<close> for a pattern without a separator: the matching names of
  the directory, files and directories alike, in listing order.\<close>

definition glob :: "entries \<Rightarrow> string \<Rightarrow> string list" where
  "glob es pattern = filter (glob_match pattern) (map fst es)"

text \<open>Opening \<open>name\<close> in a directory for writing, writing the data of \<open>f\<close> and copying
  its metadata (\<^verbatim>\<open>copyfile\<close> then \<^verbatim>\<open>copystat\<close>): an existing file is replaced where it
  stands if it is writable, a new file is added to the listing.\<close>

definition write_file :: "entries \<Rightarrow> string \<Rightarrow> regfile \<Rightarrow> error + entries" where
  "write_file es name f =
     (case map_of es name of
        None \<Rightarrow> Inr (AList.update name (File f) es)
      | Some (Dir ds) \<Rightarrow> Inl IsADirectoryError
      | Some (File g) \<Rightarrow>
          if writable g then Inr (AList.update name (File f) es) else Inl PermissionError)"

text \<open>Opening \<open>name\<close> in a directory for reading.\<close>

definition read_file :: "entries \<Rightarrow> string \<Rightarrow> error + regfile" where
  "read_file es name =
     (case map_of es name of
        None \<Rightarrow> Inl FileNotFoundError
      | Some (Dir ds) \<Rightarrow> Inl IsADirectoryError
      | Some (File f) \<Rightarrow> if readable f then Inr f else Inl PermissionError)"

text \<open>\<^verbatim>\<open>shutil.copy2(src, dst)\<close> for two names of one directory, in the order of the
  library: a destination that is a directory stands for the path inside it under the
  name of the source; copying a file onto itself raises; then the source is opened for
  reading and the destination for writing.\<close>

definition copy2 :: "entries \<Rightarrow> string \<Rightarrow> string \<Rightarrow> error + entries" where
  "copy2 es src dst =
     (case map_of es dst of
        Some (Dir ds) \<Rightarrow>
          (case read_file es src of
             Inl e \<Rightarrow> Inl e
           | Inr f \<Rightarrow>
               (case write_file ds src f of
                  Inl e \<Rightarrow> Inl e
                | Inr ds' \<Rightarrow> Inr (AList.update dst (Dir ds') es)))
      | _ \<Rightarrow>
          if src = dst \<and> map_of es src \<noteq> None then Inl SameFileError
          else
            (case read_file es src of
               Inl e \<Rightarrow> Inl e
             | Inr f \<Rightarrow> write_file es dst f))"

section \<open>The walker and copier\<close>

text \<open>The lines that the loop prints, and the counters of the summary block.\<close>

datatype event =
    Processing string
  | WarnNoEegDir string
  | WarnNoVmrk string
  | WarnNoEeg string
  | WarnUnknownRange string
  | CreatedVmrk string
  | CreatedEeg string
  | ErrorCreating error

record summary =
  fixed_vmrk_count :: nat
  fixed_eeg_count :: nat
  error_count :: nat
  total_subjects :: nat
  printed :: "event list"

definition say :: "event \<Rightarrow> summary \<Rightarrow> summary" where
  "say ev sm = sm\<lparr>printed := printed sm @ [ev]\<rparr>"

definition pattern_vmrk :: string where
  "pattern_vmrk = ''*_task-visualoddball_eeg.vmrk''"

definition pattern_eeg :: string where
  "pattern_eeg = ''*_task-visualoddball_eeg.eeg''"

type_synonym mapper = "string \<Rightarrow> string \<Rightarrow> error + string option"

text \<open>The \<^verbatim>\<open>try\<close> block of the loop, on the entries \<open>es\<close> of the \<^verbatim>\<open>eeg\<close> directory. Every
  exception raised inside it is caught and counted. \<^verbatim>\<open>fix_vmrk_files\<close> has the same
  block without the test for \<^verbatim>\<open>None\<close>, and its mapper never returns \<^verbatim>\<open>None\<close>. A \<^verbatim>\<open>None\<close>
  as the name of the eeg target would raise \<^verbatim>\<open>TypeError\<close> in \<^verbatim>\<open>eeg_dir / None\<close>.\<close>

definition copy_files ::
  "mapper \<Rightarrow> string \<Rightarrow> string \<Rightarrow> string \<Rightarrow> entries \<Rightarrow> summary \<Rightarrow> entries \<times> summary" where
  "copy_files get_name name existing_vmrk existing_eeg es sm =
     (case get_name name ''vmrk'' of
        Inl e \<Rightarrow> (es, say (ErrorCreating e) (sm\<lparr>error_count := error_count sm + 1\<rparr>))
      | Inr None \<Rightarrow> (es, say (WarnUnknownRange name) sm)
      | Inr (Some expected_vmrk_name) \<Rightarrow>
          (case copy2 es existing_vmrk expected_vmrk_name of
             Inl e \<Rightarrow> (es, say (ErrorCreating e) (sm\<lparr>error_count := error_count sm + 1\<rparr>))
           | Inr es1 \<Rightarrow>
               (let sm1 = (say (CreatedVmrk expected_vmrk_name) sm)
                            \<lparr>fixed_vmrk_count := fixed_vmrk_count sm + 1\<rparr>
                in case get_name name ''eeg'' of
                     Inl e \<Rightarrow>
                       (es1, say (ErrorCreating e) (sm1\<lparr>error_count := error_count sm1 + 1\<rparr>))
                   | Inr None \<Rightarrow>
                       (es1, say (ErrorCreating TypeError)
                               (sm1\<lparr>error_count := error_count sm1 + 1\<rparr>))
                   | Inr (Some expected_eeg_name) \<Rightarrow>
                       (case copy2 es1 existing_eeg expected_eeg_name of
                          Inl e \<Rightarrow>
                            (es1, say (ErrorCreating e)
                                    (sm1\<lparr>error_count := error_count sm1 + 1\<rparr>))
                        | Inr es2 \<Rightarrow>
                            (es2, (say (CreatedEeg expected_eeg_name) sm1)
                                    \<lparr>fixed_eeg_count := fixed_eeg_count sm1 + 1\<rparr>)))))"

text \<open>The body of the loop for one subject directory with entries \<open>sd\<close>.\<close>

definition process_subject ::
  "mapper \<Rightarrow> string \<Rightarrow> entries \<Rightarrow> summary \<Rightarrow> entries \<times> summary" where
  "process_subject get_name name sd sm =
     (let sm0 = say (Processing name) sm
      in case map_of sd ''eeg'' of
           None \<Rightarrow> (sd, say (WarnNoEegDir name) sm0)
         | Some eeg_dir \<Rightarrow>
             (case glob (children eeg_dir) pattern_vmrk of
                [] \<Rightarrow> (sd, say (WarnNoVmrk name) sm0)
              | existing_vmrk # _ \<Rightarrow>
                  (case glob (children eeg_dir) pattern_eeg of
                     [] \<Rightarrow> (sd, say (WarnNoEeg name) sm0)
                   | existing_eeg # _ \<Rightarrow>
                       (let (es', sm') =
                              copy_files get_name name existing_vmrk existing_eeg
                                (children eeg_dir) sm0
                        in (AList.update ''eeg'' (Dir es') sd, sm')))))"

text \<open>\<^verbatim>\<open>[d for d in base_dir.iterdir() if d.is_dir() and d.name.startswith('sub-')]\<close>.\<close>

definition subject_dirs :: "entries \<Rightarrow> string list" where
  "subject_dirs root = map fst (filter (\<lambda>(n, x). is_dir x \<and> startswith n ''sub-'') root)"

text \<open>\<^verbatim>\<open>subject_dirs.sort(key=...)\<close>: the key of every element is computed first, and an
  exception of the key function leaves the method; the sort is stable.\<close>

fun sort_keys :: "string list \<Rightarrow> error + (int \<times> string) list" where
  "sort_keys [] = Inr []"
| "sort_keys (d # ds) =
     (case subject_num d of
        Inl e \<Rightarrow> Inl e
      | Inr k \<Rightarrow> (case sort_keys ds of Inl e \<Rightarrow> Inl e | Inr ks \<Rightarrow> Inr ((k, d) # ks)))"

definition sort_subject_dirs :: "string list \<Rightarrow> error + string list" where
  "sort_subject_dirs ds =
     (case sort_keys ds of Inl e \<Rightarrow> Inl e | Inr ks \<Rightarrow> Inr (map snd (sort_key fst ks)))"

text \<open>One turn of the loop on the file system: the subject directory is read, the body
  runs, and what it wrote is in the file system afterwards. Under a name that is not a
  directory (which a name taken from the listing of a well-formed root never is)
  nothing exists, and the body finds no \<^verbatim>\<open>eeg\<close> directory.\<close>

definition loop_step :: "mapper \<Rightarrow> string \<Rightarrow> entries \<times> summary \<Rightarrow> entries \<times> summary" where
  "loop_step get_name name st =
     (case map_of (fst st) name of
        Some (Dir sd) \<Rightarrow>
          (let (sd', sm') = process_subject get_name name sd (snd st)
           in (AList.update name (Dir sd') (fst st), sm'))
      | _ \<Rightarrow> (fst st, say (WarnNoEegDir name) (say (Processing name) (snd st))))"

definition empty_summary :: summary where
  "empty_summary =
     \<lparr>fixed_vmrk_count = 0, fixed_eeg_count = 0, error_count = 0, total_subjects = 0,
      printed = []\<rparr>"

text \<open>The whole function: the file system afterwards, and the exception that left the
  function or the summary that it printed.\<close>

definition walker :: "mapper \<Rightarrow> entries \<Rightarrow> entries \<times> (error + summary)" where
  "walker get_name root =
     (case sort_subject_dirs (subject_dirs root) of
        Inl e \<Rightarrow> (root, Inl e)
      | Inr ds \<Rightarrow>
          (let (root', sm) =
                 fold (loop_step get_name) ds
                   (root, empty_summary\<lparr>total_subjects := length ds\<rparr>)
           in (root', Inr sm)))"

text \<open>\<^verbatim>\<open>recreate_correct_files\<close> of \<^verbatim>\<open>cleanup_and_fix.py\<close> and \<^verbatim>\<open>fix_vmrk_files\<close> of
  \<^verbatim>\<open>fix_vmrk_files.py\<close>: the same loop around the two mappers.\<close>

definition recreate_correct_files :: "entries \<Rightarrow> entries \<times> (error + summary)" where
  "recreate_correct_files = walker get_expected_filename"

definition fix_vmrk_files :: "entries \<Rightarrow> entries \<times> (error + summary)" where
  "fix_vmrk_files = walker fix_vmrk_get_expected_filename"

text \<open>The exit status of the interpreter: none of the scripts calls \<^verbatim>\<open>sys.exit\<close>, so the
  status is 1 when an exception leaves the main function and 0 when it returns.\<close>

definition exit_status :: "error + 'a \<Rightarrow> nat" where
  "exit_status r = (case r of Inl e \<Rightarrow> 1 | Inr v \<Rightarrow> 0)"

section \<open>Cleanup\<close>

definition pattern_cocoa :: string where
  "pattern_cocoa = ''COCOA_*_VO.*''"

definition pattern_sasa :: string where
  "pattern_sasa = ''SASA_*_VO.*''"

text \<open>\<^verbatim>\<open>list(base_dir.rglob(pattern))\<close>: the paths below the directory, at any depth, whose
  last name matches; the matches of a directory come before those of its
  subdirectories.\<close>

fun rglob :: "entries \<Rightarrow> string \<Rightarrow> path list"
  and rglob_subdirs :: "entries \<Rightarrow> string \<Rightarrow> path list" where
  "rglob es pattern = map (\<lambda>n. [n]) (glob es pattern) @ rglob_subdirs es pattern"
| "rglob_subdirs [] pattern = []"
| "rglob_subdirs ((n, File f) # es) pattern = rglob_subdirs es pattern"
| "rglob_subdirs ((n, Dir ds) # es) pattern =
     map ((#) n) (rglob ds pattern) @ rglob_subdirs es pattern"

declare rglob.simps [simp del]

text \<open>
  The state of the file system during and after a cleanup: the tree, and the paths of
  the directories that have lost their search permission. Nothing below such a
  directory can be reached: every system call on a path through it fails with
  \<^verbatim>\<open>PermissionError\<close>.
\<close>

type_synonym fs = "entries \<times> path list"

definition below_locked :: "path list \<Rightarrow> path \<Rightarrow> bool" where
  "below_locked ls p = list_ex (\<lambda>q. length q < length p \<and> take (length q) p = q) ls"

text \<open>What a path leads to.\<close>

fun lookup :: "entries \<Rightarrow> path \<Rightarrow> node option" where
  "lookup es [] = None"
| "lookup es [n] = map_of es n"
| "lookup es (n # m # p) =
     (case map_of es n of Some (Dir ds) \<Rightarrow> lookup ds (m # p) | _ \<Rightarrow> None)"

definition is_dir_at :: "entries \<Rightarrow> path \<Rightarrow> bool" where
  "is_dir_at es p = (case lookup es p of Some (Dir ds) \<Rightarrow> True | _ \<Rightarrow> False)"

text \<open>The effect of \<^verbatim>\<open>os.chmod(path, 0o644)\<close> on the tree: a file becomes readable and
  writable for its owner; a directory keeps its entries.\<close>

fun chmod_644_tree :: "path \<Rightarrow> entries \<Rightarrow> error + entries" where
  "chmod_644_tree [] es = Inl FileNotFoundError"
| "chmod_644_tree [n] es =
     (case map_of es n of
        None \<Rightarrow> Inl FileNotFoundError
      | Some (File f) \<Rightarrow> Inr (AList.update n (File (f\<lparr>readable := True, writable := True\<rparr>)) es)
      | Some (Dir ds) \<Rightarrow> Inr es)"
| "chmod_644_tree (n # m # p) es =
     (case map_of es n of
        None \<Rightarrow> Inl FileNotFoundError
      | Some (File f) \<Rightarrow> Inl NotADirectoryError
      | Some (Dir ds) \<Rightarrow>
          (case chmod_644_tree (m # p) ds of
             Inl e \<Rightarrow> Inl e
           | Inr ds' \<Rightarrow> Inr (AList.update n (Dir ds') es)))"

text \<open>\<^verbatim>\<open>os.chmod(path, 0o644)\<close>: fails below a directory without search permission;
  otherwise sets the mode, and the mode \<^verbatim>\<open>rw-r--r--\<close> leaves a directory without search
  permission.\<close>

definition chmod_644 :: "path \<Rightarrow> fs \<Rightarrow> error + fs" where
  "chmod_644 p st =
     (if below_locked (snd st) p then Inl PermissionError
      else case chmod_644_tree p (fst st) of
             Inl e \<Rightarrow> Inl e
           | Inr es \<Rightarrow> Inr (es, if is_dir_at (fst st) p then p # snd st else snd st))"

text \<open>The effect of \<^verbatim>\<open>file_path.unlink()\<close> on the tree: removes a file, raises on a
  directory.\<close>

fun unlink_tree :: "path \<Rightarrow> entries \<Rightarrow> error + entries" where
  "unlink_tree [] es = Inl FileNotFoundError"
| "unlink_tree [n] es =
     (case map_of es n of
        None \<Rightarrow> Inl FileNotFoundError
      | Some (File f) \<Rightarrow> Inr (AList.delete n es)
      | Some (Dir ds) \<Rightarrow> Inl IsADirectoryError)"
| "unlink_tree (n # m # p) es =
     (case map_of es n of
        None \<Rightarrow> Inl FileNotFoundError
      | Some (File f) \<Rightarrow> Inl NotADirectoryError
      | Some (Dir ds) \<Rightarrow>
          (case unlink_tree (m # p) ds of
             Inl e \<Rightarrow> Inl e
           | Inr ds' \<Rightarrow> Inr (AList.update n (Dir ds') es)))"

text \<open>\<^verbatim>\<open>file_path.unlink()\<close>: fails below a directory without search permission.\<close>

definition unlink :: "path \<Rightarrow> fs \<Rightarrow> error + fs" where
  "unlink p st =
     (if below_locked (snd st) p then Inl PermissionError
      else case unlink_tree p (fst st) of
             Inl e \<Rightarrow> Inl e
           | Inr es \<Rightarrow> Inr (es, snd st))"

record cleanup_summary =
  deleted_count :: nat
  delete_error_count :: nat

text \<open>The body of the deletion loop, with its \<^verbatim>\<open>try\<close> and \<^verbatim>\<open>except\<close>.\<close>

definition delete_one :: "path \<Rightarrow> fs \<times> cleanup_summary \<Rightarrow> fs \<times> cleanup_summary" where
  "delete_one file_path st =
     (case chmod_644 file_path (fst st) of
        Inl e \<Rightarrow> (fst st, (snd st)\<lparr>delete_error_count := delete_error_count (snd st) + 1\<rparr>)
      | Inr st1 \<Rightarrow>
          (case unlink file_path st1 of
             Inl e \<Rightarrow> (st1, (snd st)\<lparr>delete_error_count := delete_error_count (snd st) + 1\<rparr>)
           | Inr st2 \<Rightarrow> (st2, (snd st)\<lparr>deleted_count := deleted_count (snd st) + 1\<rparr>)))"

text \<open>\<^verbatim>\<open>cleanup_files\<close> of \<^verbatim>\<open>cleanup_files.py\<close>, started on a tree all of whose directories
  can be searched; \<^verbatim>\<open>cleanup_incorrect_files\<close> of \<^verbatim>\<open>cleanup_and_fix.py\<close> is the same loop
  and returns the number of deleted files.\<close>

definition cleanup_files :: "entries \<Rightarrow> fs \<times> cleanup_summary" where
  "cleanup_files root =
     (let cocoa_files = rglob root pattern_cocoa;
          sasa_files = rglob root pattern_sasa;
          all_files = cocoa_files @ sasa_files
      in fold delete_one all_files
           ((root, []), \<lparr>deleted_count = 0, delete_error_count = 0\<rparr>))"

definition cleanup_incorrect_files :: "entries \<Rightarrow> fs \<times> nat" where
  "cleanup_incorrect_files root =
     (let (st, cs) = cleanup_files root in (st, deleted_count cs))"

section \<open>The walker after a cleanup\<close>

text \<open>
  \<^verbatim>\<open>main\<close> of \<^verbatim>\<open>cleanup_and_fix.py\<close> runs \<^verbatim>\<open>recreate_correct_files\<close> on what
  \<^verbatim>\<open>cleanup_incorrect_files\<close> leaves, where the directories in \<open>ls\<close> cannot be searched.
  The definitions below are those of the walker with the failures that this adds:
  nothing can be opened inside such a directory, and \<^verbatim>\<open>eeg_dir.exists()\<close>, which is
  outside the \<^verbatim>\<open>try\<close>, raises when the subject directory is one.
\<close>

definition copy2_after :: "path list \<Rightarrow> path \<Rightarrow> entries \<Rightarrow> string \<Rightarrow> string \<Rightarrow> error + entries" where
  "copy2_after ls dir es src dst =
     (if dir \<in> set ls then Inl PermissionError
      else
        (case map_of es dst of
           Some (Dir ds) \<Rightarrow>
             (case read_file es src of
                Inl e \<Rightarrow> Inl e
              | Inr f \<Rightarrow>
                  if dir @ [dst] \<in> set ls then Inl PermissionError
                  else
                    (case write_file ds src f of
                       Inl e \<Rightarrow> Inl e
                     | Inr ds' \<Rightarrow> Inr (AList.update dst (Dir ds') es)))
         | _ \<Rightarrow>
             if src = dst \<and> map_of es src \<noteq> None then Inl SameFileError
             else
               (case read_file es src of
                  Inl e \<Rightarrow> Inl e
                | Inr f \<Rightarrow> write_file es dst f)))"

definition copy_files_after ::
  "path list \<Rightarrow> path \<Rightarrow> mapper \<Rightarrow> string \<Rightarrow> string \<Rightarrow> string \<Rightarrow> entries \<Rightarrow> summary
     \<Rightarrow> entries \<times> summary" where
  "copy_files_after ls dir get_name name existing_vmrk existing_eeg es sm =
     (case get_name name ''vmrk'' of
        Inl e \<Rightarrow> (es, say (ErrorCreating e) (sm\<lparr>error_count := error_count sm + 1\<rparr>))
      | Inr None \<Rightarrow> (es, say (WarnUnknownRange name) sm)
      | Inr (Some expected_vmrk_name) \<Rightarrow>
          (case copy2_after ls dir es existing_vmrk expected_vmrk_name of
             Inl e \<Rightarrow> (es, say (ErrorCreating e) (sm\<lparr>error_count := error_count sm + 1\<rparr>))
           | Inr es1 \<Rightarrow>
               (let sm1 = (say (CreatedVmrk expected_vmrk_name) sm)
                            \<lparr>fixed_vmrk_count := fixed_vmrk_count sm + 1\<rparr>
                in case get_name name ''eeg'' of
                     Inl e \<Rightarrow>
                       (es1, say (ErrorCreating e) (sm1\<lparr>error_count := error_count sm1 + 1\<rparr>))
                   | Inr None \<Rightarrow>
                       (es1, say (ErrorCreating TypeError)
                               (sm1\<lparr>error_count := error_count sm1 + 1\<rparr>))
                   | Inr (Some expected_eeg_name) \<Rightarrow>
                       (case copy2_after ls dir es1 existing_eeg expected_eeg_name of
                          Inl e \<Rightarrow>
                            (es1, say (ErrorCreating e)
                                    (sm1\<lparr>error_count := error_count sm1 + 1\<rparr>))
                        | Inr es2 \<Rightarrow>
                            (es2, (say (CreatedEeg expected_eeg_name) sm1)
                                    \<lparr>fixed_eeg_count := fixed_eeg_count sm1 + 1\<rparr>)))))"

definition process_subject_after ::
  "path list \<Rightarrow> mapper \<Rightarrow> string \<Rightarrow> entries \<Rightarrow> summary \<Rightarrow> entries \<times> summary" where
  "process_subject_after ls get_name name sd sm =
     (let sm0 = say (Processing name) sm
      in case map_of sd ''eeg'' of
           None \<Rightarrow> (sd, say (WarnNoEegDir name) sm0)
         | Some eeg_dir \<Rightarrow>
             (case glob (children eeg_dir) pattern_vmrk of
                [] \<Rightarrow> (sd, say (WarnNoVmrk name) sm0)
              | existing_vmrk # _ \<Rightarrow>
                  (case glob (children eeg_dir) pattern_eeg of
                     [] \<Rightarrow> (sd, say (WarnNoEeg name) sm0)
                   | existing_eeg # _ \<Rightarrow>
                       (let (es', sm') =
                              copy_files_after ls [name, ''eeg''] get_name name
                                existing_vmrk existing_eeg (children eeg_dir) sm0
                        in (AList.update ''eeg'' (Dir es') sd, sm')))))"

definition loop_step_after ::
  "path list \<Rightarrow> mapper \<Rightarrow> string \<Rightarrow> entries \<times> summary \<Rightarrow> entries \<times> summary" where
  "loop_step_after ls get_name name st =
     (case map_of (fst st) name of
        Some (Dir sd) \<Rightarrow>
          (let (sd', sm') = process_subject_after ls get_name name sd (snd st)
           in (AList.update name (Dir sd') (fst st), sm'))
      | _ \<Rightarrow> (fst st, say (WarnNoEegDir name) (say (Processing name) (snd st))))"

text \<open>The loop, which an exception outside the \<^verbatim>\<open>try\<close> leaves.\<close>

fun loop_after ::
  "path list \<Rightarrow> mapper \<Rightarrow> string list \<Rightarrow> entries \<times> summary \<Rightarrow> entries \<times> (error + summary)" where
  "loop_after ls get_name [] st = (fst st, Inr (snd st))"
| "loop_after ls get_name (name # names) st =
     (if [name] \<in> set ls then (fst st, Inl PermissionError)
      else loop_after ls get_name names (loop_step_after ls get_name name st))"

definition walker_after :: "path list \<Rightarrow> mapper \<Rightarrow> entries \<Rightarrow> entries \<times> (error + summary)" where
  "walker_after ls get_name root =
     (case sort_subject_dirs (subject_dirs root) of
        Inl e \<Rightarrow> (root, Inl e)
      | Inr ds \<Rightarrow>
          loop_after ls get_name ds (root, empty_summary\<lparr>total_subjects := length ds\<rparr>))"

text \<open>\<^verbatim>\<open>main\<close> of \<^verbatim>\<open>cleanup_and_fix.py\<close>: clean up, then create the files again.\<close>

definition main :: "entries \<Rightarrow> entries \<times> (error + summary)" where
  "main root =
     (let (st, deleted) = cleanup_incorrect_files root
      in walker_after (snd st) get_expected_filename (fst st))"

text \<open>The exit status of each script run on a tree.\<close>

definition fix_vmrk_files_py :: "entries \<Rightarrow> nat" where
  "fix_vmrk_files_py root = exit_status (snd (fix_vmrk_files root))"

definition cleanup_and_fix_py :: "entries \<Rightarrow> nat" where
  "cleanup_and_fix_py root = exit_status (snd (main root))"

definition cleanup_files_py :: "entries \<Rightarrow> nat" where
  "cleanup_files_py root = exit_status (Inr (snd (cleanup_files root)) :: error + cleanup_summary)"

section \<open>Paths\<close>

text \<open>The paths of all files below a directory, for stating what a run leaves behind.\<close>

fun file_paths :: "entries \<Rightarrow> path list" where
  "file_paths [] = []"
| "file_paths ((n, File f) # es) = [n] # file_paths es"
| "file_paths ((n, Dir ds) # es) = map ((#) n) (file_paths ds) @ file_paths es"

section \<open>Notions of the specification and example trees\<close>

text \<open>A name that the cleanup looks for.\<close>

definition target_name :: "string \<Rightarrow> bool" where
  "target_name n = (glob_match pattern_cocoa n \<or> glob_match pattern_sasa n)"

text \<open>A decimal numeral in the plain sense: one or more decimal digits.\<close>

definition decimal_numeral :: "string \<Rightarrow> bool" where
  "decimal_numeral s = (s \<noteq> [] \<and> list_all is_digit s)"

text \<open>The first name of a listing that matches a pattern.\<close>

definition first_match :: "entries \<Rightarrow> string \<Rightarrow> string option" where
  "first_match es pattern = List.find (glob_match pattern) (map fst es)"

definition plain_file :: "string \<Rightarrow> regfile" where
  "plain_file c = \<lparr>contents = c, readable = True, writable = True, mtime = 0\<rparr>"

definition locked_file :: "string \<Rightarrow> regfile" where
  "locked_file c = \<lparr>contents = c, readable = False, writable = True, mtime = 0\<rparr>"

definition readonly_file :: "string \<Rightarrow> regfile" where
  "readonly_file c = \<lparr>contents = c, readable = True, writable = False, mtime = 0\<rparr>"

text \<open>A subject directory named \<open>sub\<close> with the two recordings in its \<^verbatim>\<open>eeg\<close> directory.\<close>

definition subject_tree :: "string \<Rightarrow> regfile \<Rightarrow> regfile \<Rightarrow> string \<times> node" where
  "subject_tree sub vmrk eeg =
     (sub, Dir [(''eeg'', Dir [(sub @ ''_task-visualoddball_eeg.vmrk'', File vmrk),
                               (sub @ ''_task-visualoddball_eeg.eeg'', File eeg)])])"

text \<open>Two listings of one \<^verbatim>\<open>eeg\<close> directory that holds two marker files: the same
  entries in two orders.\<close>

definition listing_ab :: entries where
  "listing_ab =
     [(''a_task-visualoddball_eeg.vmrk'', File (plain_file ''A'')),
      (''b_task-visualoddball_eeg.vmrk'', File (plain_file ''B'')),
      (''a_task-visualoddball_eeg.eeg'', File (plain_file ''D''))]"

definition listing_ba :: entries where
  "listing_ba =
     [(''b_task-visualoddball_eeg.vmrk'', File (plain_file ''B'')),
      (''a_task-visualoddball_eeg.vmrk'', File (plain_file ''A'')),
      (''a_task-visualoddball_eeg.eeg'', File (plain_file ''D''))]"

text \<open>The entries of a subject directory of the root, and what the loop body prints and
  counts for a subject when it is run on the subject's directory alone.\<close>

definition subject_entries :: "entries \<Rightarrow> string \<Rightarrow> entries" where
  "subject_entries root d = (case map_of root d of None \<Rightarrow> [] | Some x \<Rightarrow> children x)"

definition outcome :: "mapper \<Rightarrow> entries \<Rightarrow> string \<Rightarrow> summary" where
  "outcome get_name root d =
     snd (process_subject get_name d (subject_entries root d) empty_summary)"

definition processed :: "mapper \<Rightarrow> entries \<Rightarrow> string \<Rightarrow> node" where
  "processed get_name root d =
     Dir (fst (process_subject get_name d (subject_entries root d) empty_summary))"

text \<open>Adding the counters of two summaries and joining what they printed.\<close>

definition add_summary :: "summary \<Rightarrow> summary \<Rightarrow> summary" where
  "add_summary a b =
     \<lparr>fixed_vmrk_count = fixed_vmrk_count a + fixed_vmrk_count b,
      fixed_eeg_count = fixed_eeg_count a + fixed_eeg_count b,
      error_count = error_count a + error_count b,
      total_subjects = total_subjects a + total_subjects b,
      printed = printed a @ printed b\<rparr>"

text \<open>A root with one subject of each kind: complete, with a marker file that cannot be
  read, without an \<^verbatim>\<open>eeg\<close> directory, and outside the ranges of the mapper.\<close>

definition mixed_root :: entries where
  "mixed_root =
     [subject_tree ''sub-002'' (locked_file ''m2'') (plain_file ''d2''),
      (''sub-005'', Dir []),
      subject_tree ''sub-100'' (plain_file ''m100'') (plain_file ''d100''),
      subject_tree ''sub-001'' (plain_file ''m1'') (plain_file ''d1'')]"

text \<open>A root with a subject whose data file cannot be read, one without a marker file,
  one without a data file, and a complete one.\<close>

definition partial_root :: entries where
  "partial_root =
     [subject_tree ''sub-003'' (plain_file ''m3'') (locked_file ''d3''),
      (''sub-004'', Dir [(''eeg'', Dir [(''sub-004_task-visualoddball_eeg.eeg'',
                                         File (plain_file ''d4''))])]),
      (''sub-006'', Dir [(''eeg'', Dir [(''sub-006_task-visualoddball_eeg.vmrk'',
                                         File (plain_file ''m6''))])]),
      subject_tree ''sub-001'' (plain_file ''m1'') (plain_file ''d1'')]"

text \<open>Two listings of the \<^verbatim>\<open>eeg\<close> directory of \<^verbatim>\<open>sub-001\<close> in which the name of the marker
  target is taken already: by a file, and by a directory.\<close>

definition listing_target_file :: entries where
  "listing_target_file =
     [(''sub-001_task-visualoddball_eeg.vmrk'', File (plain_file ''m1'')),
      (''sub-001_task-visualoddball_eeg.eeg'', File (plain_file ''d1'')),
      (''COCOA_013_VO.vmrk'', File (plain_file ''old''))]"

definition listing_target_dir :: entries where
  "listing_target_dir =
     [(''sub-001_task-visualoddball_eeg.vmrk'', File (plain_file ''m1'')),
      (''sub-001_task-visualoddball_eeg.eeg'', File (plain_file ''d1'')),
      (''COCOA_013_VO.vmrk'', Dir [])]"

text \<open>The same for \<^verbatim>\<open>fix_vmrk_files.py\<close>, whose mapper names the marker target of
  \<^verbatim>\<open>sub-001\<close> \<^verbatim>\<open>COCOA_014_VO.vmrk\<close>.\<close>

definition listing_target_dir_014 :: entries where
  "listing_target_dir_014 =
     [(''sub-001_task-visualoddball_eeg.vmrk'', File (plain_file ''m1'')),
      (''sub-001_task-visualoddball_eeg.eeg'', File (plain_file ''d1'')),
      (''COCOA_014_VO.vmrk'', Dir [])]"

text \<open>The name \<open>dst\<close> of a directory holds a copy of the file \<open>f\<close> made from \<open>src\<close>: as a
  file of that name, or inside a directory of that name under the name of the source.\<close>

definition holds_copy :: "entries \<Rightarrow> string \<Rightarrow> string \<Rightarrow> regfile \<Rightarrow> bool" where
  "holds_copy es dst src f =
     (case map_of es dst of
        None \<Rightarrow> False
      | Some (File g) \<Rightarrow> g = f
      | Some (Dir ds) \<Rightarrow> map_of ds src = Some (File f))"

text \<open>The source files that the walker selects in an \<^verbatim>\<open>eeg\<close> directory are writable, and
  the same for every subject directory of a root.\<close>

definition source_writable :: "entries \<Rightarrow> string \<Rightarrow> bool" where
  "source_writable es pattern =
     (case first_match es pattern of
        None \<Rightarrow> True
      | Some v \<Rightarrow> (case map_of es v of Some (File f) \<Rightarrow> writable f | _ \<Rightarrow> True))"

definition sources_writable :: "entries \<Rightarrow> bool" where
  "sources_writable sd =
     (case map_of sd ''eeg'' of
        Some (Dir es) \<Rightarrow> source_writable es pattern_vmrk \<and> source_writable es pattern_eeg
      | _ \<Rightarrow> True)"

definition all_sources_writable :: "entries \<Rightarrow> bool" where
  "all_sources_writable root =
     list_all (\<lambda>d. sources_writable (subject_entries root d)) (subject_dirs root)"

section \<open>Properties of the filename mapper\<close>

lemma decimal_lt10: "n < 10 \<Longrightarrow> decimal n = [digit_char n]"
  by (simp add: decimal.simps)

lemma decimal_lt100:
  "10 \<le> n \<Longrightarrow> n < 100 \<Longrightarrow> decimal n = [digit_char (n div 10), digit_char (n mod 10)]"
  by (subst decimal.simps) (simp add: decimal_lt10)

lemma decimal_lt1000:
  "100 \<le> n \<Longrightarrow> n < 1000 \<Longrightarrow>
   decimal n = [digit_char (n div 100), digit_char (n div 10 mod 10), digit_char (n mod 10)]"
  by (subst decimal.simps) (simp add: decimal_lt100 div_mult2_eq[symmetric])

lemma fmt_03d_three_digits:
  assumes "0 \<le> n" and "n < 1000"
  shows "fmt_03d n = three_digits n"
proof -
  define m where "m = nat n"
  have m: "m < 1000" using assms by (simp add: m_def)
  consider "m < 10" | "10 \<le> m" "m < 100" | "100 \<le> m" "m < 1000"
    using m by linarith
  then have "zfill 3 (decimal m) =
      [digit_char (m div 100), digit_char (m div 10 mod 10), digit_char (m mod 10)]"
  proof cases
    case 1
    then show ?thesis
      by (simp add: decimal_lt10 zfill_def digit_char_def numeral_3_eq_3)
  next
    case 2
    then show ?thesis by (simp add: decimal_lt100 zfill_def digit_char_def)
  next
    case 3
    then show ?thesis by (simp add: decimal_lt1000 zfill_def)
  qed
  then show ?thesis using assms by (simp add: fmt_03d_def three_digits_def m_def)
qed

text \<open>
  Claim C1. For a subject directory whose number is \<open>i\<close> and every extension \<open>ext\<close>, the
  mapper of \<^verbatim>\<open>cleanup_and_fix.py\<close> returns \<^verbatim>\<open>COCOA_\<close>, the three digits of \<open>i + 12\<close>,
  \<^verbatim>\<open>_VO.\<close> and \<open>ext\<close> when \<open>1 \<le> i \<le> 56\<close>; the same with \<open>i + 13\<close> when \<open>57 \<le> i \<le> 77\<close>
  and with \<open>i + 14\<close> when \<open>78 \<le> i \<le> 96\<close>; and \<^verbatim>\<open>SASA_\<close>, the three digits of \<open>i - 96\<close>,
  \<^verbatim>\<open>_VO.\<close> and \<open>ext\<close> when \<open>111 \<le> i \<le> 127\<close>. The extension is copied as it is.
\<close>

theorem get_expected_filename_table:
  assumes "subject_num d = Inr i"
  shows "(1 \<le> i \<and> i \<le> 56 \<longrightarrow>
            get_expected_filename d ext =
              Inr (Some (''COCOA_'' @ three_digits (i + 12) @ ''_VO.'' @ ext)))
       \<and> (57 \<le> i \<and> i \<le> 77 \<longrightarrow>
            get_expected_filename d ext =
              Inr (Some (''COCOA_'' @ three_digits (i + 13) @ ''_VO.'' @ ext)))
       \<and> (78 \<le> i \<and> i \<le> 96 \<longrightarrow>
            get_expected_filename d ext =
              Inr (Some (''COCOA_'' @ three_digits (i + 14) @ ''_VO.'' @ ext)))
       \<and> (111 \<le> i \<and> i \<le> 127 \<longrightarrow>
            get_expected_filename d ext =
              Inr (Some (''SASA_'' @ three_digits (i - 96) @ ''_VO.'' @ ext)))"
  using assms by (simp add: get_expected_filename_def fmt_03d_three_digits)

theorem get_expected_filename_table_witness:
  "get_expected_filename ''sub-001'' ''vmrk'' = Inr (Some ''COCOA_013_VO.vmrk'')
 \<and> get_expected_filename ''sub-057'' ''eeg'' = Inr (Some ''COCOA_070_VO.eeg'')
 \<and> get_expected_filename ''sub-078'' ''vmrk'' = Inr (Some ''COCOA_092_VO.vmrk'')
 \<and> get_expected_filename ''sub-115'' ''eeg'' = Inr (Some ''SASA_019_VO.eeg'')"
proof -
  have s1: "subject_num ''sub-001'' = Inr 1" by code_simp
  have s2: "subject_num ''sub-057'' = Inr 57" by code_simp
  have s3: "subject_num ''sub-078'' = Inr 78" by code_simp
  have s4: "subject_num ''sub-115'' = Inr 115" by code_simp
  show ?thesis
    using get_expected_filename_table [OF s1, of "''vmrk''"]
      get_expected_filename_table [OF s2, of "''eeg''"]
      get_expected_filename_table [OF s3, of "''vmrk''"]
      get_expected_filename_table [OF s4, of "''eeg''"]
    by (simp add: three_digits_def digit_char_def)
qed

text \<open>The mapper of the earlier script \<^verbatim>\<open>fix_vmrk_files.py\<close> is a different function: it
  adds 13 on the whole range from 1 to 96 and names subjects outside the ranges
  \<^verbatim>\<open>SUBJECT_...\<close>.\<close>

lemma fix_vmrk_get_expected_filename_differs:
  "fix_vmrk_get_expected_filename ''sub-001'' ''vmrk'' = Inr (Some ''COCOA_014_VO.vmrk'')
 \<and> fix_vmrk_get_expected_filename ''sub-100'' ''vmrk'' = Inr (Some ''SUBJECT_100_VO.vmrk'')"
  by code_simp

text \<open>
  Claim C9. Whether the mapper of \<^verbatim>\<open>cleanup_and_fix.py\<close> returns \<^verbatim>\<open>None\<close> depends on the
  subject directory only, never on the extension; so where the name for \<^verbatim>\<open>vmrk\<close> is a
  string, as it is after the test in \<^verbatim>\<open>recreate_correct_files\<close>, the name for
  \<^verbatim>\<open>eeg\<close> is a string too.
\<close>

theorem sentinel_independent_of_extension:
  "(get_expected_filename d ext = Inr None \<longleftrightarrow> get_expected_filename d ext' = Inr None)
 \<and> (get_expected_filename d ''vmrk'' = Inr (Some v) \<longrightarrow>
      (\<exists>e. get_expected_filename d ''eeg'' = Inr (Some e)))"
  by (auto simp: get_expected_filename_def split: sum.splits if_splits)

theorem sentinel_independent_of_extension_witness:
  "get_expected_filename ''sub-001'' ''vmrk'' = Inr (Some ''COCOA_013_VO.vmrk'')
 \<and> (\<exists>e. get_expected_filename ''sub-001'' ''eeg'' = Inr (Some e))"
proof -
  have v: "get_expected_filename ''sub-001'' ''vmrk'' = Inr (Some ''COCOA_013_VO.vmrk'')"
    by code_simp
  show ?thesis
    using v sentinel_independent_of_extension [of "''sub-001''" _ _ "''COCOA_013_VO.vmrk''"]
    by blast
qed

section \<open>Glob patterns\<close>

lemma glob_match_star:
  "glob_match (CHR ''*'' # ps) s \<longleftrightarrow> (\<exists>a b. s = a @ b \<and> glob_match ps b)"
proof (induction s)
  case Nil
  then show ?case by simp
next
  case (Cons c cs)
  show ?case
  proof
    assume "glob_match (CHR ''*'' # ps) (c # cs)"
    then consider "glob_match ps (c # cs)" | "glob_match (CHR ''*'' # ps) cs" by auto
    then show "\<exists>a b. c # cs = a @ b \<and> glob_match ps b"
    proof cases
      case 1
      then show ?thesis by (intro exI[of _ "[]"] exI[of _ "c # cs"]) simp
    next
      case 2
      then obtain a b where "cs = a @ b" "glob_match ps b" using Cons.IH by blast
      then show ?thesis by (intro exI[of _ "c # a"] exI[of _ b]) simp
    qed
  next
    assume "\<exists>a b. c # cs = a @ b \<and> glob_match ps b"
    then obtain a b where ab: "c # cs = a @ b" "glob_match ps b" by blast
    show "glob_match (CHR ''*'' # ps) (c # cs)"
    proof (cases a)
      case Nil
      then have "glob_match ps (c # cs)" using ab by simp
      then show ?thesis by simp
    next
      case (Cons a0 as)
      then have "cs = as @ b" using ab by simp
      then have "glob_match (CHR ''*'' # ps) cs" using Cons.IH ab(2) by blast
      then show ?thesis by simp
    qed
  qed
qed

lemma glob_match_char:
  "p \<noteq> CHR ''*'' \<Longrightarrow> glob_match (p # ps) s \<longleftrightarrow> (\<exists>t. s = p # t \<and> glob_match ps t)"
  by (cases s) auto

lemma glob_match_lit:
  "CHR ''*'' \<notin> set l \<Longrightarrow> glob_match (l @ ps) s \<longleftrightarrow> (\<exists>t. s = l @ t \<and> glob_match ps t)"
proof (induction l arbitrary: s)
  case Nil
  then show ?case by simp
next
  case (Cons c l)
  then have c: "c \<noteq> CHR ''*''" and l: "CHR ''*'' \<notin> set l" by auto
  show ?case
    using Cons.IH [OF l] by (auto simp: glob_match_char [OF c])
qed

lemma glob_match_any: "glob_match ''*'' s"
  by (simp add: glob_match_star)

lemma glob_match_suffix:
  "CHR ''*'' \<notin> set l \<Longrightarrow> glob_match (CHR ''*'' # l) s \<longleftrightarrow> (\<exists>a. s = a @ l)"
  using glob_match_lit [of l "[]"] by (auto simp: glob_match_star)

lemma glob_match_pattern_vmrk:
  "glob_match pattern_vmrk n \<longleftrightarrow> (\<exists>a. n = a @ ''_task-visualoddball_eeg.vmrk'')"
  unfolding pattern_vmrk_def by (rule glob_match_suffix) simp

lemma glob_match_pattern_eeg:
  "glob_match pattern_eeg n \<longleftrightarrow> (\<exists>a. n = a @ ''_task-visualoddball_eeg.eeg'')"
  unfolding pattern_eeg_def by (rule glob_match_suffix) simp

lemma glob_match_series:
  assumes "CHR ''*'' \<notin> set l"
  shows "glob_match (l @ ''*_VO.*'') n \<longleftrightarrow> (\<exists>a b. n = l @ a @ ''_VO.'' @ b)"
proof -
  have "glob_match (''_VO.'' @ ''*'') b \<longleftrightarrow> (\<exists>t. b = ''_VO.'' @ t)" for b
    by (subst glob_match_lit) (simp_all add: glob_match_any)
  then have "glob_match (CHR ''*'' # ''_VO.*'') t \<longleftrightarrow> (\<exists>a b. t = a @ ''_VO.'' @ b)" for t
    by (subst glob_match_star) auto
  then show ?thesis
    using glob_match_lit [OF assms, of "''*_VO.*''" n] by auto
qed

lemma glob_match_pattern_cocoa:
  "glob_match pattern_cocoa n \<longleftrightarrow> (\<exists>a b. n = ''COCOA_'' @ a @ ''_VO.'' @ b)"
  using glob_match_series [of "''COCOA_''" n] by (simp add: pattern_cocoa_def)

lemma glob_match_pattern_sasa:
  "glob_match pattern_sasa n \<longleftrightarrow> (\<exists>a b. n = ''SASA_'' @ a @ ''_VO.'' @ b)"
  using glob_match_series [of "''SASA_''" n] by (simp add: pattern_sasa_def)

section \<open>The two forms of the walker\<close>

text \<open>Where every directory can be searched, the walker after a cleanup is the walker;
  so \<^verbatim>\<open>main\<close> is \<^verbatim>\<open>recreate_correct_files\<close> on what the cleanup leaves, whenever the cleanup
  met no directory with the name of a target.\<close>

lemma copy2_after_Nil: "copy2_after [] dir es src dst = copy2 es src dst"
  by (simp add: copy2_after_def copy2_def
      cong: option.case_cong node.case_cong sum.case_cong)

lemma copy_files_after_Nil:
  "copy_files_after [] dir m name v e es sm = copy_files m name v e es sm"
  by (simp add: copy_files_after_def copy_files_def copy2_after_Nil
      cong: option.case_cong sum.case_cong)

lemma process_subject_after_Nil:
  "process_subject_after [] m name sd sm = process_subject m name sd sm"
  by (simp add: process_subject_after_def process_subject_def copy_files_after_Nil
      cong: option.case_cong list.case_cong)

lemma loop_step_after_Nil: "loop_step_after [] m name st = loop_step m name st"
  by (simp add: loop_step_after_def loop_step_def process_subject_after_Nil
      cong: option.case_cong node.case_cong)

lemma loop_after_Nil:
  "loop_after [] m ds st =
     (fst (fold (loop_step m) ds st), Inr (snd (fold (loop_step m) ds st)))"
  by (induction ds arbitrary: st) (simp_all add: loop_step_after_Nil)

lemma walker_after_Nil: "walker_after [] m root = walker m root"
  by (simp add: walker_after_def walker_def loop_after_Nil case_prod_beta split: sum.splits)

lemma main_unlocked:
  "snd (fst (cleanup_incorrect_files root)) = [] \<Longrightarrow>
   main root = recreate_correct_files (fst (fst (cleanup_incorrect_files root)))"
  by (simp add: main_def recreate_correct_files_def walker_after_Nil case_prod_beta)

section \<open>The sort key and the exit status\<close>

lemma split_on_nonempty: "split_on sep s \<noteq> []"
  by (induction s) (auto split: list.splits)

lemma split_on_no_sep: "sep \<notin> set s \<Longrightarrow> split_on sep s = [s]"
  by (induction s) auto

lemma startswith_append: "startswith s p \<longleftrightarrow> (\<exists>r. s = p @ r)"
  by (induction s p rule: startswith.induct) auto

lemma subject_num_sub:
  "subject_num (''sub-'' @ r) = py_int (hd (split_on CHR ''-'' r))"
proof -
  obtain w ws where "split_on CHR ''-'' r = w # ws"
    using split_on_nonempty [of "CHR ''-''" r] by (cases "split_on CHR ''-'' r") auto
  then show ?thesis by (simp add: subject_num_def)
qed

lemma py_int_error: "py_int s = Inl e \<Longrightarrow> e = ValueError"
  by (auto simp: py_int_def split: list.splits if_splits option.splits)

lemma subject_num_error:
  assumes "startswith d ''sub-''" and "subject_num d = Inl e"
  shows "e = ValueError"
proof -
  obtain r where "d = ''sub-'' @ r" using assms(1) startswith_append by blast
  then show ?thesis using assms(2) py_int_error by (simp only: subject_num_sub)
qed

lemma is_digit_not_special:
  "is_digit c \<Longrightarrow> \<not> is_space c \<and> c \<noteq> CHR ''+'' \<and> c \<noteq> CHR ''-'' \<and> c \<noteq> CHR ''_''"
  by (auto simp: is_digit_def is_space_def)

lemma int_digits_all_digits: "list_all is_digit cs \<Longrightarrow> \<exists>n. int_digits acc cs = Some n"
  by (induction acc cs rule: int_digits.induct) auto

lemma strip_digits:
  assumes "decimal_numeral s"
  shows "strip s = s"
proof -
  from assms obtain c cs where s: "s = c # cs" and c: "is_digit c"
    by (cases s) (auto simp: decimal_numeral_def)
  have 1: "dropWhile is_space s = s"
    using s c is_digit_not_special by simp
  from assms have "rev s \<noteq> []" and "list_all is_digit (rev s)"
    by (auto simp: decimal_numeral_def list_all_iff)
  then obtain l ls where r: "rev s = l # ls" and l: "is_digit l"
    by (cases "rev s") auto
  have 2: "dropWhile is_space (rev s) = rev s"
    using r l is_digit_not_special by simp
  show ?thesis by (simp add: strip_def 1 2)
qed

lemma py_int_decimal_numeral:
  assumes "decimal_numeral s"
  shows "\<exists>k. py_int s = Inr k"
proof -
  from assms obtain c cs where s: "s = c # cs" and c: "is_digit c" and cs: "list_all is_digit cs"
    by (cases s) (auto simp: decimal_numeral_def)
  obtain n where "int_digits (digit_val c) cs = Some n"
    using int_digits_all_digits [OF cs] by blast
  then have "int_literal s = Some n" using s c by (simp add: int_literal_def)
  then show ?thesis
    using s c is_digit_not_special [OF c] strip_digits [OF assms]
    by (simp add: py_int_def)
qed

lemma subject_num_decimal_numeral:
  assumes "startswith d ''sub-''" and "decimal_numeral (drop 4 d)"
  shows "\<exists>k. subject_num d = Inr k"
proof -
  obtain r where d: "d = ''sub-'' @ r" using assms(1) startswith_append by blast
  then have r: "decimal_numeral r" using assms(2) by simp
  then have "CHR ''-'' \<notin> set r"
    using is_digit_not_special by (auto simp: decimal_numeral_def list_all_iff)
  then have "split_on CHR ''-'' r = [r]" by (rule split_on_no_sep)
  then show ?thesis
    using py_int_decimal_numeral [OF r] d by (simp only: subject_num_sub) simp
qed

lemma sort_keys_Inl: "sort_keys ds = Inl e \<Longrightarrow> \<exists>d\<in>set ds. subject_num d = Inl e"
  by (induction ds arbitrary: e) (auto split: sum.splits)

lemma sort_keys_Inr:
  "(\<exists>ks. sort_keys ds = Inr ks) \<longleftrightarrow> (\<forall>d\<in>set ds. \<exists>k. subject_num d = Inr k)"
  by (induction ds) (auto split: sum.splits)

lemma sort_keys_snd: "sort_keys ds = Inr ks \<Longrightarrow> map snd ks = ds"
  by (induction ds arbitrary: ks) (auto split: sum.splits)

lemma subject_dirs_iff:
  "d \<in> set (subject_dirs root) \<longleftrightarrow> (\<exists>x. (d, x) \<in> set root \<and> is_dir x \<and> startswith d ''sub-'')"
  by (force simp: subject_dirs_def)

lemma sort_subject_dirs_Inl:
  assumes "sort_subject_dirs (subject_dirs root) = Inl e"
  shows "e = ValueError"
proof -
  from assms have "sort_keys (subject_dirs root) = Inl e"
    by (auto simp: sort_subject_dirs_def split: sum.splits)
  then obtain d where "d \<in> set (subject_dirs root)" and "subject_num d = Inl e"
    using sort_keys_Inl by blast
  then show ?thesis using subject_num_error by (auto simp: subject_dirs_iff)
qed

lemma sort_subject_dirs_Inr:
  "(\<exists>ds. sort_subject_dirs (subject_dirs root) = Inr ds) \<longleftrightarrow>
   (\<forall>d\<in>set (subject_dirs root). \<exists>k. subject_num d = Inr k)"
proof -
  have "(\<exists>ds. sort_subject_dirs (subject_dirs root) = Inr ds) \<longleftrightarrow>
        (\<exists>ks. sort_keys (subject_dirs root) = Inr ks)"
    by (auto simp: sort_subject_dirs_def split: sum.splits)
  then show ?thesis by (simp only: sort_keys_Inr)
qed

lemma walker_Inl:
  "sort_subject_dirs (subject_dirs root) = Inl e \<Longrightarrow> walker m root = (root, Inl e)"
  by (simp add: walker_def)

lemma walker_Inr:
  "sort_subject_dirs (subject_dirs root) = Inr ds \<Longrightarrow>
   walker m root =
     (fst (fold (loop_step m) ds (root, empty_summary\<lparr>total_subjects := length ds\<rparr>)),
      Inr (snd (fold (loop_step m) ds (root, empty_summary\<lparr>total_subjects := length ds\<rparr>))))"
  by (simp add: walker_def split: prod.splits)

text \<open>
  Claim C10, as the code has it. The walker admits every immediate subdirectory whose
  name starts with \<^verbatim>\<open>sub-\<close> and sorts by \<^verbatim>\<open>int\<close> of the text between the first and the
  second \<^verbatim>\<open>-\<close> of the name. If \<^verbatim>\<open>int\<close> rejects that text for some admitted directory
  with an ASCII name, as it does for \<^verbatim>\<open>sub-extra\<close>, the run ends with \<^verbatim>\<open>ValueError\<close> and
  the file system is as it was. If \<^verbatim>\<open>int\<close> accepts it for every admitted directory, and
  in particular if every admitted name is \<^verbatim>\<open>sub-\<close> followed by a decimal numeral of ASCII
  digits, the run completes.
\<close>

theorem walker_sort_key:
  "((\<exists>d\<in>set (subject_dirs root). ascii_name d \<and> (\<forall>k. subject_num d \<noteq> Inr k)) \<longrightarrow>
       walker m root = (root, Inl ValueError))
 \<and> ((\<forall>d\<in>set (subject_dirs root). \<exists>k. subject_num d = Inr k) \<longrightarrow>
       (\<exists>root' sm. walker m root = (root', Inr sm)))
 \<and> ((\<forall>d\<in>set (subject_dirs root). decimal_numeral (drop 4 d)) \<longrightarrow>
       (\<exists>root' sm. walker m root = (root', Inr sm)))
 \<and> ascii_name ''sub-extra''
 \<and> subject_num ''sub-extra'' = Inl ValueError
 \<and> (\<forall>d. d \<in> set (subject_dirs root) \<longleftrightarrow>
        (\<exists>x. (d, x) \<in> set root \<and> is_dir x \<and> startswith d ''sub-''))"
proof (intro conjI impI)
  assume "\<exists>d\<in>set (subject_dirs root). ascii_name d \<and> (\<forall>k. subject_num d \<noteq> Inr k)"
  then have "\<not> (\<exists>ds. sort_subject_dirs (subject_dirs root) = Inr ds)"
    by (simp only: sort_subject_dirs_Inr) blast
  then obtain e where e: "sort_subject_dirs (subject_dirs root) = Inl e"
    by (cases "sort_subject_dirs (subject_dirs root)") auto
  then have "e = ValueError" by (rule sort_subject_dirs_Inl)
  then show "walker m root = (root, Inl ValueError)" using walker_Inl [OF e] by simp
next
  assume "\<forall>d\<in>set (subject_dirs root). \<exists>k. subject_num d = Inr k"
  then obtain ds where "sort_subject_dirs (subject_dirs root) = Inr ds"
    using sort_subject_dirs_Inr by blast
  then show "\<exists>root' sm. walker m root = (root', Inr sm)"
    using walker_Inr by blast
next
  assume a: "\<forall>d\<in>set (subject_dirs root). decimal_numeral (drop 4 d)"
  have "\<exists>k. subject_num d = Inr k" if d: "d \<in> set (subject_dirs root)" for d
  proof -
    have "startswith d ''sub-''" using d subject_dirs_iff by blast
    moreover have "decimal_numeral (drop 4 d)" using a d by blast
    ultimately show ?thesis by (rule subject_num_decimal_numeral)
  qed
  then have "\<forall>d\<in>set (subject_dirs root). \<exists>k. subject_num d = Inr k" by blast
  then obtain ds where "sort_subject_dirs (subject_dirs root) = Inr ds"
    using sort_subject_dirs_Inr by blast
  then show "\<exists>root' sm. walker m root = (root', Inr sm)"
    using walker_Inr by blast
next
  show "ascii_name ''sub-extra''" by code_simp
next
  show "subject_num ''sub-extra'' = Inl ValueError" by code_simp
next
  show "\<forall>d. d \<in> set (subject_dirs root) \<longleftrightarrow>
        (\<exists>x. (d, x) \<in> set root \<and> is_dir x \<and> startswith d ''sub-'')"
    using subject_dirs_iff by blast
qed

theorem walker_sort_key_witness:
  "walker get_expected_filename [(''sub-extra'', Dir [])] =
     ([(''sub-extra'', Dir [])], Inl ValueError)
 \<and> (\<exists>root' sm. walker get_expected_filename [(''sub-001'', Dir [])] = (root', Inr sm))"
proof -
  have d1: "subject_dirs [(''sub-extra'', Dir [])] = [''sub-extra'']" by code_simp
  have d2: "subject_dirs [(''sub-001'', Dir [])] = [''sub-001'']" by code_simp
  have n0: "ascii_name ''sub-extra''" by code_simp
  have n1: "subject_num ''sub-extra'' = Inl ValueError" by code_simp
  have n2: "subject_num ''sub-001'' = Inr 1" by code_simp
  have n3: "decimal_numeral (drop 4 ''sub-001'')" by code_simp
  show ?thesis
    using walker_sort_key [of "[(''sub-extra'', Dir [])]" get_expected_filename]
      walker_sort_key [of "[(''sub-001'', Dir [])]" get_expected_filename]
    by (simp add: d1 d2 n0 n1 n2 n3)
qed

text \<open>
  Claim C10, as stated, fails: \<^verbatim>\<open>sub-12-extra\<close> is admitted, the text after its first
  \<^verbatim>\<open>-\<close> is not a decimal numeral, and the run completes and copies both files, since
  the sort key is \<^verbatim>\<open>int("12")\<close>.
\<close>

theorem walker_sort_key_counterexample:
  "''sub-12-extra'' \<in> set (subject_dirs [subject_tree ''sub-12-extra'' (plain_file ''m'') (plain_file ''d'')])
 \<and> \<not> decimal_numeral (drop 4 ''sub-12-extra'')
 \<and> snd (recreate_correct_files
          [subject_tree ''sub-12-extra'' (plain_file ''m'') (plain_file ''d'')]) =
     Inr \<lparr>fixed_vmrk_count = 1, fixed_eeg_count = 1, error_count = 0, total_subjects = 1,
          printed = [Processing ''sub-12-extra'', CreatedVmrk ''COCOA_024_VO.vmrk'',
                     CreatedEeg ''COCOA_024_VO.eeg'']\<rparr>"
  by code_simp

text \<open>
  Claim C7, as the code has it. No script sets an exit status: a run of any of the
  three scripts that reaches its summary ends with status zero, whatever its error
  count is.
\<close>

theorem exit_status_of_run:
  "(\<forall>sm. snd (fix_vmrk_files root) = Inr sm \<longrightarrow> fix_vmrk_files_py root = 0)
 \<and> (\<forall>sm. snd (main root) = Inr sm \<longrightarrow> cleanup_and_fix_py root = 0)
 \<and> cleanup_files_py root = 0"
  by (simp add: fix_vmrk_files_py_def cleanup_and_fix_py_def cleanup_files_py_def
      exit_status_def)

theorem exit_status_of_run_witness:
  "fix_vmrk_files_py [subject_tree ''sub-001'' (locked_file ''m'') (plain_file ''d'')] = 0
 \<and> cleanup_and_fix_py [subject_tree ''sub-001'' (locked_file ''m'') (plain_file ''d'')] = 0
 \<and> cleanup_files_py [subject_tree ''sub-001'' (locked_file ''m'') (plain_file ''d'')] = 0"
proof -
  have 1: "snd (fix_vmrk_files [subject_tree ''sub-001'' (locked_file ''m'') (plain_file ''d'')]) =
     Inr \<lparr>fixed_vmrk_count = 0, fixed_eeg_count = 0, error_count = 1, total_subjects = 1,
          printed = [Processing ''sub-001'', ErrorCreating PermissionError]\<rparr>"
    by code_simp
  have 2: "snd (main [subject_tree ''sub-001'' (locked_file ''m'') (plain_file ''d'')]) =
     Inr \<lparr>fixed_vmrk_count = 0, fixed_eeg_count = 0, error_count = 1, total_subjects = 1,
          printed = [Processing ''sub-001'', ErrorCreating PermissionError]\<rparr>"
    by code_simp
  show ?thesis
    using exit_status_of_run [of "[subject_tree ''sub-001'' (locked_file ''m'') (plain_file ''d'')]"]
    by (simp add: 1 2)
qed

text \<open>
  Claim C7, as stated, fails: a marker file that cannot be read gives a run of
  \<^verbatim>\<open>fix_vmrk_files.py\<close>, and one of \<^verbatim>\<open>cleanup_and_fix.py\<close>, with error count 1 and exit
  status 0; a directory with the name of a target gives a run of \<^verbatim>\<open>cleanup_files.py\<close>
  with one error and exit status 0.
\<close>

theorem exit_status_counterexample:
  "snd (fix_vmrk_files [subject_tree ''sub-001'' (locked_file ''m'') (plain_file ''d'')]) =
     Inr \<lparr>fixed_vmrk_count = 0, fixed_eeg_count = 0, error_count = 1, total_subjects = 1,
          printed = [Processing ''sub-001'', ErrorCreating PermissionError]\<rparr>
 \<and> fix_vmrk_files_py [subject_tree ''sub-001'' (locked_file ''m'') (plain_file ''d'')] = 0
 \<and> snd (main [subject_tree ''sub-001'' (locked_file ''m'') (plain_file ''d'')]) =
     Inr \<lparr>fixed_vmrk_count = 0, fixed_eeg_count = 0, error_count = 1, total_subjects = 1,
          printed = [Processing ''sub-001'', ErrorCreating PermissionError]\<rparr>
 \<and> cleanup_and_fix_py [subject_tree ''sub-001'' (locked_file ''m'') (plain_file ''d'')] = 0
 \<and> snd (cleanup_files [(''sub-001'', Dir [(''eeg'', Dir listing_target_dir)])]) =
     \<lparr>deleted_count = 0, delete_error_count = 1\<rparr>
 \<and> cleanup_files_py [(''sub-001'', Dir [(''eeg'', Dir listing_target_dir)])] = 0"
  by code_simp

section \<open>Selection of the source files\<close>

lemma glob_Nil: "glob es p = [] \<longleftrightarrow> first_match es p = None"
  by (auto simp: glob_def first_match_def find_None_iff filter_empty_conv)

lemma glob_Cons: "first_match es p = Some v \<Longrightarrow> \<exists>vs. glob es p = v # vs"
  unfolding glob_def first_match_def
  by (induction "map fst es" arbitrary: es) (auto split: if_splits)

lemma first_match_iff:
  "first_match es p = Some v \<longleftrightarrow>
     (\<exists>i<length es. fst (es ! i) = v \<and> glob_match p v
        \<and> (\<forall>j<i. \<not> glob_match p (fst (es ! j))))"
  by (auto simp: first_match_def find_Some_iff)

text \<open>
  Claim C8, as the code has it. When a glob has several matches the loop body does not
  raise: it takes the first match in the order of the directory listing, for the marker
  file and for the data file, and goes on with the copy step. The choice is a function of
  the listing, order included; the scripts have no other rule for ties.
\<close>

theorem walker_selects_first_match:
  assumes "map_of sd ''eeg'' = Some (Dir es)"
    and "first_match es pattern_vmrk = Some v"
    and "first_match es pattern_eeg = Some e"
  shows "process_subject m d sd sm =
           (AList.update ''eeg'' (Dir (fst (copy_files m d v e es (say (Processing d) sm)))) sd,
            snd (copy_files m d v e es (say (Processing d) sm)))"
proof -
  obtain vs where vs: "glob es pattern_vmrk = v # vs" using glob_Cons [OF assms(2)] by blast
  obtain ws where ws: "glob es pattern_eeg = e # ws" using glob_Cons [OF assms(3)] by blast
  show ?thesis
    by (simp add: process_subject_def assms(1) vs ws split: prod.splits)
qed

theorem walker_selects_first_match_witness:
  "process_subject get_expected_filename ''sub-001'' [(''eeg'', Dir listing_ab)] empty_summary =
     (AList.update ''eeg''
        (Dir (fst (copy_files get_expected_filename ''sub-001''
                     ''a_task-visualoddball_eeg.vmrk'' ''a_task-visualoddball_eeg.eeg''
                     listing_ab (say (Processing ''sub-001'') empty_summary))))
        [(''eeg'', Dir listing_ab)],
      snd (copy_files get_expected_filename ''sub-001''
             ''a_task-visualoddball_eeg.vmrk'' ''a_task-visualoddball_eeg.eeg''
             listing_ab (say (Processing ''sub-001'') empty_summary)))"
proof -
  have h1: "map_of [(''eeg'', Dir listing_ab)] ''eeg'' = Some (Dir listing_ab)" by simp
  have h2: "first_match listing_ab pattern_vmrk = Some ''a_task-visualoddball_eeg.vmrk''"
    by code_simp
  have h3: "first_match listing_ab pattern_eeg = Some ''a_task-visualoddball_eeg.eeg''"
    by code_simp
  show ?thesis by (rule walker_selects_first_match [OF h1 h2 h3])
qed

text \<open>
  Claim C8, as stated, fails: the same entries listed in two orders make the walker
  copy two different marker files to \<^verbatim>\<open>COCOA_013_VO.vmrk\<close>.
\<close>

theorem first_match_counterexample:
  "set listing_ab = set listing_ba
 \<and> lookup (fst (recreate_correct_files [(''sub-001'', Dir [(''eeg'', Dir listing_ab)])]))
      [''sub-001'', ''eeg'', ''COCOA_013_VO.vmrk''] = Some (File (plain_file ''A''))
 \<and> lookup (fst (recreate_correct_files [(''sub-001'', Dir [(''eeg'', Dir listing_ba)])]))
      [''sub-001'', ''eeg'', ''COCOA_013_VO.vmrk''] = Some (File (plain_file ''B''))"
  by code_simp

section \<open>Subjects without a mapping\<close>

lemma glob_children_Cons: "glob (children x) p = v # vs \<Longrightarrow> \<exists>es. x = Dir es"
  by (cases x) (auto simp: glob_def)

lemma update_eeg_same:
  "map_of sd ''eeg'' = Some x \<Longrightarrow> glob (children x) p = v # vs \<Longrightarrow>
   AList.update ''eeg'' (Dir (children x)) sd = sd"
  using glob_children_Cons [of x p v vs] by (auto simp: AList.update_triv)

lemma copy_files_no_mapping:
  "get_name d ''vmrk'' = Inr None \<Longrightarrow>
   copy_files get_name d v e es sm = (es, say (WarnUnknownRange d) sm)"
  by (simp add: copy_files_def)

text \<open>
  Claim C2. For a subject directory whose number \<open>i\<close> is outside all ranges (\<open>i < 1\<close>, or
  \<open>97 \<le> i \<le> 110\<close>, or \<open>i > 127\<close>) the mapper of \<^verbatim>\<open>cleanup_and_fix.py\<close> returns \<^verbatim>\<open>None\<close> for
  every extension, and the loop body of \<^verbatim>\<open>recreate_correct_files\<close> skips the subject: it
  prints one warning, changes no counter and leaves the subject directory as it was, so
  no target file is created. Where both recordings are present the warning is the one
  for the unknown range.
\<close>

theorem no_mapping_is_skipped:
  assumes "subject_num d = Inr i"
    and "i < 1 \<or> (97 \<le> i \<and> i \<le> 110) \<or> 127 < i"
  shows "get_expected_filename d ext = Inr None
       \<and> (\<exists>w\<in>{WarnNoEegDir d, WarnNoVmrk d, WarnNoEeg d, WarnUnknownRange d}.
            process_subject get_expected_filename d sd sm = (sd, say w (say (Processing d) sm)))
       \<and> (map_of sd ''eeg'' = Some (Dir es) \<and> first_match es pattern_vmrk = Some v
            \<and> first_match es pattern_eeg = Some e \<longrightarrow>
            process_subject get_expected_filename d sd sm =
              (sd, say (WarnUnknownRange d) (say (Processing d) sm)))"
proof -
  have none: "get_expected_filename d x = Inr None" for x
    using assms by (auto simp: get_expected_filename_def)
  note cf = copy_files_no_mapping [of get_expected_filename d, OF none]
  have skip: "\<exists>w\<in>{WarnNoEegDir d, WarnNoVmrk d, WarnNoEeg d, WarnUnknownRange d}.
      process_subject get_expected_filename d sd sm = (sd, say w (say (Processing d) sm))"
  proof (cases "map_of sd ''eeg''")
    case None
    then show ?thesis by (simp add: process_subject_def)
  next
    case (Some x)
    show ?thesis
    proof (cases "glob (children x) pattern_vmrk")
      case Nil
      then show ?thesis using Some by (simp add: process_subject_def)
    next
      case vm: (Cons v' vs)
      show ?thesis
      proof (cases "glob (children x) pattern_eeg")
        case Nil
        then show ?thesis using Some vm by (simp add: process_subject_def)
      next
        case (Cons e' ws)
        then show ?thesis
          using Some vm update_eeg_same [OF Some vm]
          by (simp add: process_subject_def cf)
      qed
    qed
  qed
  have range: "process_subject get_expected_filename d sd sm =
      (sd, say (WarnUnknownRange d) (say (Processing d) sm))"
    if h: "map_of sd ''eeg'' = Some (Dir es)" "first_match es pattern_vmrk = Some v"
      "first_match es pattern_eeg = Some e"
  proof -
    obtain vs where vs: "glob es pattern_vmrk = v # vs" using glob_Cons [OF h(2)] by blast
    obtain ws where ws: "glob es pattern_eeg = e # ws" using glob_Cons [OF h(3)] by blast
    show ?thesis
      using h(1) vs ws
      by (simp add: process_subject_def cf AList.update_triv)
  qed
  show ?thesis using none skip range by blast
qed

theorem no_mapping_is_skipped_witness:
  "get_expected_filename ''sub-100'' ''vmrk'' = Inr None
 \<and> process_subject get_expected_filename ''sub-100''
      (children (snd (subject_tree ''sub-100'' (plain_file ''m'') (plain_file ''d''))))
      empty_summary =
     (children (snd (subject_tree ''sub-100'' (plain_file ''m'') (plain_file ''d''))),
      say (WarnUnknownRange ''sub-100'') (say (Processing ''sub-100'') empty_summary))"
proof -
  define es where "es = [(''sub-100_task-visualoddball_eeg.vmrk'', File (plain_file ''m'')),
                         (''sub-100_task-visualoddball_eeg.eeg'', File (plain_file ''d''))]"
  have sd: "children (snd (subject_tree ''sub-100'' (plain_file ''m'') (plain_file ''d''))) =
            [(''eeg'', Dir es)]"
    by (simp add: subject_tree_def es_def)
  have n: "subject_num ''sub-100'' = Inr 100" by code_simp
  have r: "(100::int) < 1 \<or> (97 \<le> (100::int) \<and> (100::int) \<le> 110) \<or> 127 < (100::int)"
    by simp
  have h: "map_of [(''eeg'', Dir es)] ''eeg'' = Some (Dir es)" by simp
  have v: "first_match es pattern_vmrk = Some ''sub-100_task-visualoddball_eeg.vmrk''"
    unfolding es_def by code_simp
  have e: "first_match es pattern_eeg = Some ''sub-100_task-visualoddball_eeg.eeg''"
    unfolding es_def by code_simp
  show ?thesis
    using no_mapping_is_skipped [OF n r, of "''vmrk''" "[(''eeg'', Dir es)]" empty_summary es
        "''sub-100_task-visualoddball_eeg.vmrk''" "''sub-100_task-visualoddball_eeg.eeg''"]
      h v e
    unfolding sd by blast
qed

section \<open>Isolation of the subjects\<close>

lemma add_summary_empty [simp]: "add_summary sm empty_summary = sm"
  by (simp add: add_summary_def empty_summary_def)

lemma say_add: "say ev (add_summary a b) = add_summary a (say ev b)"
  by (simp add: say_def add_summary_def)

lemma copy_files_fst:
  "fst (copy_files m d v e es sm) = fst (copy_files m d v e es sm')"
  by (simp add: copy_files_def Let_def split: sum.splits option.splits)

lemma copy_files_snd:
  "snd (copy_files m d v e es (add_summary a b)) = add_summary a (snd (copy_files m d v e es b))"
  by (simp add: copy_files_def Let_def say_def add_summary_def split: sum.splits option.splits)

lemma process_subject_fst:
  "fst (process_subject m d sd sm) = fst (process_subject m d sd sm')"
  using copy_files_fst [of m d _ _ _ "say (Processing d) sm" "say (Processing d) sm'"]
  by (simp add: process_subject_def Let_def case_prod_beta split: option.splits list.splits)

lemma process_subject_snd:
  "snd (process_subject m d sd (add_summary a b)) =
   add_summary a (snd (process_subject m d sd b))"
  using copy_files_snd [of m d _ _ _ a "say (Processing d) b"]
  by (simp add: process_subject_def Let_def say_add case_prod_beta
      split: option.splits list.splits)


lemma process_subject_split:
  "process_subject m d sd sm =
     (fst (process_subject m d sd empty_summary),
      add_summary sm (snd (process_subject m d sd empty_summary)))"
proof -
  have "snd (process_subject m d sd (add_summary sm empty_summary)) =
        add_summary sm (snd (process_subject m d sd empty_summary))"
    by (rule process_subject_snd)
  then have "snd (process_subject m d sd sm) =
        add_summary sm (snd (process_subject m d sd empty_summary))"
    by simp
  moreover have "fst (process_subject m d sd sm) = fst (process_subject m d sd empty_summary)"
    by (rule process_subject_fst)
  ultimately show ?thesis by (simp add: prod_eq_iff)
qed

lemma update_as_map:
  "map_of r d = Some y \<Longrightarrow> distinct (map fst r) \<Longrightarrow>
   AList.update d v r = map (\<lambda>(n, x). if n = d then (n, v) else (n, x)) r"
proof (induction r)
  case Nil
  then show ?case by simp
next
  case (Cons p r)
  obtain n x where p: "p = (n, x)" by (cases p)
  show ?case
  proof (cases "n = d")
    case True
    then have "d \<notin> fst ` set r" using Cons.prems(2) p by auto
    then have "map (\<lambda>(n, x). if n = d then (n, v) else (n, x)) r = r"
      by (intro map_idI) (auto simp: rev_image_eqI)
    then show ?thesis using True p by simp
  next
    case False
    then show ?thesis using Cons p by simp
  qed
qed

lemma map_of_distinct_mem:
  "distinct (map fst r) \<Longrightarrow> (n, x) \<in> set r \<Longrightarrow> map_of r n = Some x"
  by simp

lemma subject_entries_mem:
  "distinct (map fst r) \<Longrightarrow> (n, x) \<in> set r \<Longrightarrow> subject_entries r n = children x"
  by (simp add: subject_entries_def)

lemma loop_step_Dir:
  "map_of r d = Some (Dir sd) \<Longrightarrow>
   loop_step m d (r, sm) =
     (AList.update d (processed m r d) r, add_summary sm (outcome m r d))"
  using process_subject_split [of m d sd sm]
  by (simp add: loop_step_def processed_def outcome_def subject_entries_def)

lemma fold_loop_step:
  assumes "distinct ds" and "distinct (map fst r)"
    and "\<forall>d\<in>set ds. \<exists>sd. map_of r d = Some (Dir sd)"
  shows "fold (loop_step m) ds (r, sm) =
     (map (\<lambda>(n, x). if n \<in> set ds then (n, processed m r n) else (n, x)) r,
      fold (\<lambda>d s. add_summary s (outcome m r d)) ds sm)"
  using assms
proof (induction ds arbitrary: r sm)
  case Nil
  then show ?case by (simp add: case_prod_beta)
next
  case (Cons d ds)
  obtain sd where sd: "map_of r d = Some (Dir sd)" using Cons.prems(3) by auto
  define r1 where "r1 = AList.update d (processed m r d) r"
  have step: "loop_step m d (r, sm) = (r1, add_summary sm (outcome m r d))"
    using loop_step_Dir [OF sd] by (simp add: r1_def)
  have r1_map: "r1 = map (\<lambda>(n, x). if n = d then (n, processed m r d) else (n, x)) r"
    unfolding r1_def using sd Cons.prems(2) by (rule update_as_map)
  have dist1: "distinct (map fst r1)"
    unfolding r1_def using Cons.prems(2) by (rule distinct_update)
  have other: "map_of r1 d' = map_of r d'" if "d' \<noteq> d" for d'
    using that by (simp add: r1_def update_conv')
  have dirs1: "\<forall>d'\<in>set ds. \<exists>sd. map_of r1 d' = Some (Dir sd)"
  proof
    fix d' assume d': "d' \<in> set ds"
    then have "d' \<noteq> d" using Cons.prems(1) by auto
    then have "map_of r1 d' = map_of r d'" by (rule other)
    moreover have "\<exists>sd. map_of r d' = Some (Dir sd)" using Cons.prems(3) d' by simp
    ultimately show "\<exists>sd. map_of r1 d' = Some (Dir sd)" by simp
  qed
  have notin: "d \<notin> set ds" using Cons.prems(1) by simp
  have same_p: "processed m r1 d' = processed m r d'" if "d' \<in> set ds" for d'
  proof -
    have "d' \<noteq> d" using that notin by auto
    then show ?thesis
      using other [of d'] by (simp add: processed_def subject_entries_def)
  qed
  have same_o: "outcome m r1 d' = outcome m r d'" if "d' \<in> set ds" for d'
  proof -
    have "d' \<noteq> d" using that notin by auto
    then show ?thesis
      using other [of d'] by (simp add: outcome_def subject_entries_def)
  qed
  have ds: "distinct ds" using Cons.prems(1) by simp
  have IH: "fold (loop_step m) ds (r1, add_summary sm (outcome m r d)) =
     (map (\<lambda>(n, x). if n \<in> set ds then (n, processed m r1 n) else (n, x)) r1,
      fold (\<lambda>d s. add_summary s (outcome m r1 d)) ds (add_summary sm (outcome m r d)))"
    by (rule Cons.IH [OF ds dist1 dirs1])
  have fs: "map (\<lambda>(n, x). if n \<in> set ds then (n, processed m r1 n) else (n, x)) r1 =
            map (\<lambda>(n, x). if n \<in> set (d # ds) then (n, processed m r n) else (n, x)) r"
  proof -
    have "map (\<lambda>(n, x). if n \<in> set ds then (n, processed m r1 n) else (n, x)) r1 =
          map (\<lambda>(n, x). if n \<in> set ds then (n, processed m r n) else (n, x)) r1"
      by (rule map_cong [OF refl]) (simp add: same_p case_prod_beta)
    also have "\<dots> =
          map (\<lambda>(n, x). if n \<in> set ds then (n, processed m r n) else (n, x))
            (map (\<lambda>(n, x). if n = d then (n, processed m r d) else (n, x)) r)"
      by (subst r1_map) (rule refl)
    also have "\<dots> =
          map (\<lambda>(n, x). if n \<in> set (d # ds) then (n, processed m r n) else (n, x)) r"
      unfolding map_map
      by (rule map_cong [OF refl]) (simp add: notin case_prod_beta)
    finally show ?thesis .
  qed
  have sm: "fold (\<lambda>d s. add_summary s (outcome m r1 d)) ds (add_summary sm (outcome m r d)) =
            fold (\<lambda>d s. add_summary s (outcome m r d)) ds (add_summary sm (outcome m r d))"
    by (rule fold_cong) (simp_all add: same_o)
  show ?case
    using step IH fs sm by simp
qed


lemma distinct_map_snd_insort:
  "distinct (map snd (insort_key f x xs)) \<longleftrightarrow> distinct (map snd (x # xs))"
  by (induction xs) (auto simp: set_insort_key)

lemma distinct_map_snd_sort:
  "distinct (map snd (sort_key f xs)) \<longleftrightarrow> distinct (map snd xs)"
  by (induction xs) (simp_all add: distinct_map_snd_insort)

lemma sort_subject_dirs_props:
  assumes "sort_subject_dirs ds0 = Inr ds"
  shows "set ds = set ds0" and "length ds = length ds0" and "distinct ds \<longleftrightarrow> distinct ds0"
proof -
  from assms obtain ks where ks: "sort_keys ds0 = Inr ks" and ds: "ds = map snd (sort_key fst ks)"
    by (auto simp: sort_subject_dirs_def split: sum.splits)
  have m: "map snd ks = ds0" using ks by (rule sort_keys_snd)
  have "set (map snd (sort_key fst ks)) = set (map snd ks)" by simp
  then show "set ds = set ds0" by (simp only: ds m)
  have "length (map snd (sort_key fst ks)) = length (map snd ks)" by simp
  then show "length ds = length ds0" by (simp only: ds m)
  show "distinct ds \<longleftrightarrow> distinct ds0" using m by (simp add: ds distinct_map_snd_sort)
qed

lemma distinct_subject_dirs: "distinct (map fst root) \<Longrightarrow> distinct (subject_dirs root)"
  by (simp add: subject_dirs_def distinct_map_filter)

lemma subject_dirs_Dir:
  assumes "distinct (map fst root)" and "d \<in> set (subject_dirs root)"
  shows "\<exists>sd. map_of root d = Some (Dir sd)"
proof -
  obtain x where x: "(d, x) \<in> set root" "is_dir x"
    using assms(2) subject_dirs_iff by blast
  then obtain sd where "x = Dir sd" by (cases x) auto
  then show ?thesis using x(1) assms(1) by simp
qed

lemma fold_add_summary:
  "fold (\<lambda>d s. add_summary s (f d)) ds sm =
     \<lparr>fixed_vmrk_count = fixed_vmrk_count sm + (\<Sum>d\<leftarrow>ds. fixed_vmrk_count (f d)),
      fixed_eeg_count = fixed_eeg_count sm + (\<Sum>d\<leftarrow>ds. fixed_eeg_count (f d)),
      error_count = error_count sm + (\<Sum>d\<leftarrow>ds. error_count (f d)),
      total_subjects = total_subjects sm + (\<Sum>d\<leftarrow>ds. total_subjects (f d)),
      printed = printed sm @ concat (map (\<lambda>d. printed (f d)) ds)\<rparr>"
  by (induction ds arbitrary: sm) (simp_all add: add_summary_def)

lemma copy_files_total: "total_subjects (snd (copy_files m d v e es sm)) = total_subjects sm"
  by (simp add: copy_files_def Let_def say_def split: sum.splits option.splits)

lemma outcome_total: "total_subjects (outcome m root d) = 0"
  using copy_files_total [of m d _ _ _ "say (Processing d) empty_summary"]
  by (simp add: outcome_def process_subject_def Let_def say_def empty_summary_def case_prod_beta
      split: option.splits list.splits)

lemma copy_files_counts:
  "error_count (snd (copy_files m d v e es empty_summary)) +
     fixed_eeg_count (snd (copy_files m d v e es empty_summary)) \<le> 1
 \<and> fixed_eeg_count (snd (copy_files m d v e es empty_summary))
     \<le> fixed_vmrk_count (snd (copy_files m d v e es empty_summary))
 \<and> fixed_vmrk_count (snd (copy_files m d v e es empty_summary)) \<le> 1"
  by (simp add: copy_files_def Let_def say_def empty_summary_def split: sum.splits option.splits)

lemma outcome_counts:
  "error_count (outcome m root d) + fixed_eeg_count (outcome m root d) \<le> 1
 \<and> fixed_eeg_count (outcome m root d) \<le> fixed_vmrk_count (outcome m root d)
 \<and> fixed_vmrk_count (outcome m root d) \<le> 1"
proof -
  have eq: "say ev empty_summary = add_summary (say ev empty_summary) empty_summary" for ev
    by simp
  have "error_count (snd (copy_files m d v e es (say ev empty_summary))) +
          fixed_eeg_count (snd (copy_files m d v e es (say ev empty_summary))) \<le> 1
      \<and> fixed_eeg_count (snd (copy_files m d v e es (say ev empty_summary)))
          \<le> fixed_vmrk_count (snd (copy_files m d v e es (say ev empty_summary)))
      \<and> fixed_vmrk_count (snd (copy_files m d v e es (say ev empty_summary))) \<le> 1"
    for v e es ev
    using copy_files_counts [of m d v e es]
    by (subst (1 2 3 4 5) eq, simp only: copy_files_snd)
       (simp add: add_summary_def say_def empty_summary_def)
  then show ?thesis
    by (simp add: outcome_def process_subject_def Let_def case_prod_beta
        split: option.splits list.splits)
       (simp add: say_def empty_summary_def)
qed


lemma outcome_no_eeg_dir:
  "map_of (subject_entries root d) ''eeg'' = None \<Longrightarrow>
   outcome m root d = say (WarnNoEegDir d) (say (Processing d) empty_summary)
 \<and> processed m root d = Dir (subject_entries root d)"
  by (simp add: outcome_def processed_def process_subject_def)

lemma outcome_copy_failure:
  assumes "map_of (subject_entries root d) ''eeg'' = Some (Dir es)"
    and "first_match es pattern_vmrk = Some v"
    and "first_match es pattern_eeg = Some e"
    and "m d ''vmrk'' = Inr (Some t)"
    and "copy2 es v t = Inl err"
  shows "outcome m root d =
           say (ErrorCreating err) ((say (Processing d) empty_summary)\<lparr>error_count := 1\<rparr>)
       \<and> processed m root d = Dir (subject_entries root d)"
proof -
  obtain vs where vs: "glob es pattern_vmrk = v # vs" using glob_Cons [OF assms(2)] by blast
  obtain ws where ws: "glob es pattern_eeg = e # ws" using glob_Cons [OF assms(3)] by blast
  have cf: "copy_files m d v e es sm =
            (es, say (ErrorCreating err) (sm\<lparr>error_count := error_count sm + 1\<rparr>))" for sm
    using assms(4,5) by (simp add: copy_files_def)
  have e0: "error_count (say (Processing d) empty_summary) = 0"
    by (simp add: say_def empty_summary_def)
  show ?thesis
    using assms(1) vs ws
    by (simp add: outcome_def processed_def process_subject_def cf e0 AList.update_triv)
qed

lemma first_match_None_glob: "first_match es p = None \<Longrightarrow> glob es p = []"
  by (simp add: first_match_def glob_def find_None_iff filter_empty_conv)

lemma outcome_no_vmrk:
  assumes "map_of (subject_entries root d) ''eeg'' = Some x"
    and "first_match (children x) pattern_vmrk = None"
  shows "outcome m root d = say (WarnNoVmrk d) (say (Processing d) empty_summary)
       \<and> processed m root d = Dir (subject_entries root d)"
  using assms(1) first_match_None_glob [OF assms(2)]
  by (simp add: outcome_def processed_def process_subject_def)

lemma outcome_no_eeg:
  assumes "map_of (subject_entries root d) ''eeg'' = Some x"
    and "first_match (children x) pattern_vmrk = Some v"
    and "first_match (children x) pattern_eeg = None"
  shows "outcome m root d = say (WarnNoEeg d) (say (Processing d) empty_summary)
       \<and> processed m root d = Dir (subject_entries root d)"
proof -
  obtain vs where vs: "glob (children x) pattern_vmrk = v # vs"
    using glob_Cons [OF assms(2)] by blast
  show ?thesis
    using assms(1) vs first_match_None_glob [OF assms(3)]
    by (simp add: outcome_def processed_def process_subject_def)
qed

lemma outcome_no_mapping:
  assumes "map_of (subject_entries root d) ''eeg'' = Some (Dir es)"
    and "first_match es pattern_vmrk = Some v"
    and "first_match es pattern_eeg = Some e"
    and "m d ''vmrk'' = Inr None"
  shows "outcome m root d = say (WarnUnknownRange d) (say (Processing d) empty_summary)
       \<and> processed m root d = Dir (subject_entries root d)"
proof -
  obtain vs where vs: "glob es pattern_vmrk = v # vs" using glob_Cons [OF assms(2)] by blast
  obtain ws where ws: "glob es pattern_eeg = e # ws" using glob_Cons [OF assms(3)] by blast
  have cf: "copy_files m d v e es sm = (es, say (WarnUnknownRange d) sm)" for sm
    using assms(4) by (simp add: copy_files_def)
  show ?thesis
    using assms(1) vs ws
    by (simp add: outcome_def processed_def process_subject_def cf AList.update_triv)
qed

lemma outcome_eeg_copy_failure:
  assumes "map_of (subject_entries root d) ''eeg'' = Some (Dir es)"
    and "first_match es pattern_vmrk = Some v"
    and "first_match es pattern_eeg = Some e"
    and "m d ''vmrk'' = Inr (Some t)"
    and "copy2 es v t = Inr es1"
    and "m d ''eeg'' = Inr (Some u)"
    and "copy2 es1 e u = Inl err"
  shows "outcome m root d =
           say (ErrorCreating err)
             ((say (CreatedVmrk t) (say (Processing d) empty_summary))
                \<lparr>fixed_vmrk_count := 1, error_count := 1\<rparr>)
       \<and> processed m root d = Dir (AList.update ''eeg'' (Dir es1) (subject_entries root d))"
proof -
  obtain vs where vs: "glob es pattern_vmrk = v # vs" using glob_Cons [OF assms(2)] by blast
  obtain ws where ws: "glob es pattern_eeg = e # ws" using glob_Cons [OF assms(3)] by blast
  show ?thesis
    using assms(1,4,5,6,7) vs ws
    by (simp add: outcome_def processed_def process_subject_def copy_files_def Let_def
        say_def empty_summary_def)
qed

lemma outcome_success:
  assumes "map_of (subject_entries root d) ''eeg'' = Some (Dir es)"
    and "first_match es pattern_vmrk = Some v"
    and "first_match es pattern_eeg = Some e"
    and "m d ''vmrk'' = Inr (Some t)"
    and "copy2 es v t = Inr es1"
    and "m d ''eeg'' = Inr (Some u)"
    and "copy2 es1 e u = Inr es2"
  shows "outcome m root d =
           (say (CreatedEeg u) (say (CreatedVmrk t) (say (Processing d) empty_summary)))
              \<lparr>fixed_vmrk_count := 1, fixed_eeg_count := 1\<rparr>
       \<and> processed m root d = Dir (AList.update ''eeg'' (Dir es2) (subject_entries root d))"
proof -
  obtain vs where vs: "glob es pattern_vmrk = v # vs" using glob_Cons [OF assms(2)] by blast
  obtain ws where ws: "glob es pattern_eeg = e # ws" using glob_Cons [OF assms(3)] by blast
  show ?thesis
    using assms(1,4,5,6,7) vs ws
    by (simp add: outcome_def processed_def process_subject_def copy_files_def Let_def
        say_def empty_summary_def)
qed

text \<open>
  Claim C4. A run whose sort succeeds always returns a summary: nothing that happens to
  one subject ends the loop. Each subject directory ends as the loop body leaves it when
  run on that directory alone, every other entry of the root is unchanged, and each
  counter of the summary is the sum over the subjects of what the body counts for that
  subject alone. One subject adds at most one error, and an error excludes the data
  file. A missing \<^verbatim>\<open>eeg\<close> directory, a missing marker file, a missing data file and a
  subject outside the ranges of the mapper are each one warning that counts nothing and
  leaves the subject as it was. A failing copy of the marker file adds one error and
  leaves the subject as it was; a failing copy of the data file adds one error after
  the marker file has been copied and counted. When both copies succeed, both are
  counted and no error is.
\<close>

theorem failures_are_isolated:
  assumes "distinct (map fst root)"
    and "sort_subject_dirs (subject_dirs root) = Inr ds"
  shows "(\<exists>sm. walker m root =
            (map (\<lambda>(n, x). if n \<in> set (subject_dirs root) then (n, processed m root n)
                           else (n, x)) root,
             Inr sm)
         \<and> fixed_vmrk_count sm = (\<Sum>d\<leftarrow>ds. fixed_vmrk_count (outcome m root d))
         \<and> fixed_eeg_count sm = (\<Sum>d\<leftarrow>ds. fixed_eeg_count (outcome m root d))
         \<and> error_count sm = (\<Sum>d\<leftarrow>ds. error_count (outcome m root d))
         \<and> total_subjects sm = length (subject_dirs root)
         \<and> printed sm = concat (map (\<lambda>d. printed (outcome m root d)) ds))
     \<and> (\<forall>d. error_count (outcome m root d) + fixed_eeg_count (outcome m root d) \<le> 1
           \<and> fixed_eeg_count (outcome m root d) \<le> fixed_vmrk_count (outcome m root d)
           \<and> fixed_vmrk_count (outcome m root d) \<le> 1)
     \<and> (\<forall>d. map_of (subject_entries root d) ''eeg'' = None \<longrightarrow>
           outcome m root d = say (WarnNoEegDir d) (say (Processing d) empty_summary)
           \<and> processed m root d = Dir (subject_entries root d))
     \<and> (\<forall>d es v e t err.
           map_of (subject_entries root d) ''eeg'' = Some (Dir es)
           \<and> first_match es pattern_vmrk = Some v \<and> first_match es pattern_eeg = Some e
           \<and> m d ''vmrk'' = Inr (Some t) \<and> copy2 es v t = Inl err \<longrightarrow>
           outcome m root d =
             say (ErrorCreating err) ((say (Processing d) empty_summary)\<lparr>error_count := 1\<rparr>)
           \<and> processed m root d = Dir (subject_entries root d))
     \<and> (\<forall>d x.
           map_of (subject_entries root d) ''eeg'' = Some x
           \<and> first_match (children x) pattern_vmrk = None \<longrightarrow>
           outcome m root d = say (WarnNoVmrk d) (say (Processing d) empty_summary)
           \<and> processed m root d = Dir (subject_entries root d))
     \<and> (\<forall>d x v.
           map_of (subject_entries root d) ''eeg'' = Some x
           \<and> first_match (children x) pattern_vmrk = Some v
           \<and> first_match (children x) pattern_eeg = None \<longrightarrow>
           outcome m root d = say (WarnNoEeg d) (say (Processing d) empty_summary)
           \<and> processed m root d = Dir (subject_entries root d))
     \<and> (\<forall>d es v e.
           map_of (subject_entries root d) ''eeg'' = Some (Dir es)
           \<and> first_match es pattern_vmrk = Some v \<and> first_match es pattern_eeg = Some e
           \<and> m d ''vmrk'' = Inr None \<longrightarrow>
           outcome m root d = say (WarnUnknownRange d) (say (Processing d) empty_summary)
           \<and> processed m root d = Dir (subject_entries root d))
     \<and> (\<forall>d es v e t es1 u err.
           map_of (subject_entries root d) ''eeg'' = Some (Dir es)
           \<and> first_match es pattern_vmrk = Some v \<and> first_match es pattern_eeg = Some e
           \<and> m d ''vmrk'' = Inr (Some t) \<and> copy2 es v t = Inr es1
           \<and> m d ''eeg'' = Inr (Some u) \<and> copy2 es1 e u = Inl err \<longrightarrow>
           outcome m root d =
             say (ErrorCreating err)
               ((say (CreatedVmrk t) (say (Processing d) empty_summary))
                  \<lparr>fixed_vmrk_count := 1, error_count := 1\<rparr>)
           \<and> processed m root d =
               Dir (AList.update ''eeg'' (Dir es1) (subject_entries root d)))
     \<and> (\<forall>d es v e t es1 u es2.
           map_of (subject_entries root d) ''eeg'' = Some (Dir es)
           \<and> first_match es pattern_vmrk = Some v \<and> first_match es pattern_eeg = Some e
           \<and> m d ''vmrk'' = Inr (Some t) \<and> copy2 es v t = Inr es1
           \<and> m d ''eeg'' = Inr (Some u) \<and> copy2 es1 e u = Inr es2 \<longrightarrow>
           outcome m root d =
             (say (CreatedEeg u) (say (CreatedVmrk t) (say (Processing d) empty_summary)))
                \<lparr>fixed_vmrk_count := 1, fixed_eeg_count := 1\<rparr>
           \<and> processed m root d =
               Dir (AList.update ''eeg'' (Dir es2) (subject_entries root d)))"
proof -
  note props = sort_subject_dirs_props [OF assms(2)]
  have dist: "distinct ds"
    using props(3) distinct_subject_dirs [OF assms(1)] by simp
  have dirs: "\<forall>d\<in>set ds. \<exists>sd. map_of root d = Some (Dir sd)"
    using subject_dirs_Dir [OF assms(1)] props(1) by simp
  let ?s0 = "empty_summary\<lparr>total_subjects := length ds\<rparr>"
  let ?sm = "fold (\<lambda>d s. add_summary s (outcome m root d)) ds ?s0"
  have fold: "fold (loop_step m) ds (root, ?s0) =
     (map (\<lambda>(n, x). if n \<in> set ds then (n, processed m root n) else (n, x)) root, ?sm)"
    by (rule fold_loop_step [OF dist assms(1) dirs])
  have w: "walker m root =
     (map (\<lambda>(n, x). if n \<in> set (subject_dirs root) then (n, processed m root n)
                    else (n, x)) root, Inr ?sm)"
    by (simp add: walker_Inr [OF assms(2)] fold props(1))
  have tot: "(\<Sum>d\<leftarrow>ds. total_subjects (outcome m root d)) = 0"
    by (simp add: outcome_total)
  have sums: "fixed_vmrk_count ?sm = (\<Sum>d\<leftarrow>ds. fixed_vmrk_count (outcome m root d))"
    "fixed_eeg_count ?sm = (\<Sum>d\<leftarrow>ds. fixed_eeg_count (outcome m root d))"
    "error_count ?sm = (\<Sum>d\<leftarrow>ds. error_count (outcome m root d))"
    "total_subjects ?sm = length (subject_dirs root)"
    "printed ?sm = concat (map (\<lambda>d. printed (outcome m root d)) ds)"
    by (simp_all add: fold_add_summary empty_summary_def tot props(2))
  have 1: "\<exists>sm. walker m root =
            (map (\<lambda>(n, x). if n \<in> set (subject_dirs root) then (n, processed m root n)
                           else (n, x)) root,
             Inr sm)
         \<and> fixed_vmrk_count sm = (\<Sum>d\<leftarrow>ds. fixed_vmrk_count (outcome m root d))
         \<and> fixed_eeg_count sm = (\<Sum>d\<leftarrow>ds. fixed_eeg_count (outcome m root d))
         \<and> error_count sm = (\<Sum>d\<leftarrow>ds. error_count (outcome m root d))
         \<and> total_subjects sm = length (subject_dirs root)
         \<and> printed sm = concat (map (\<lambda>d. printed (outcome m root d)) ds)"
    using w sums by blast
  have 2: "\<forall>d. error_count (outcome m root d) + fixed_eeg_count (outcome m root d) \<le> 1
           \<and> fixed_eeg_count (outcome m root d) \<le> fixed_vmrk_count (outcome m root d)
           \<and> fixed_vmrk_count (outcome m root d) \<le> 1"
    using outcome_counts by blast
  have 3: "\<forall>d. map_of (subject_entries root d) ''eeg'' = None \<longrightarrow>
           outcome m root d = say (WarnNoEegDir d) (say (Processing d) empty_summary)
           \<and> processed m root d = Dir (subject_entries root d)"
    using outcome_no_eeg_dir by blast
  have 4: "\<forall>d es v e t err.
           map_of (subject_entries root d) ''eeg'' = Some (Dir es)
           \<and> first_match es pattern_vmrk = Some v \<and> first_match es pattern_eeg = Some e
           \<and> m d ''vmrk'' = Inr (Some t) \<and> copy2 es v t = Inl err \<longrightarrow>
           outcome m root d =
             say (ErrorCreating err) ((say (Processing d) empty_summary)\<lparr>error_count := 1\<rparr>)
           \<and> processed m root d = Dir (subject_entries root d)"
    using outcome_copy_failure by blast
  have 5: "\<forall>d x.
           map_of (subject_entries root d) ''eeg'' = Some x
           \<and> first_match (children x) pattern_vmrk = None \<longrightarrow>
           outcome m root d = say (WarnNoVmrk d) (say (Processing d) empty_summary)
           \<and> processed m root d = Dir (subject_entries root d)"
    using outcome_no_vmrk by blast
  have 6: "\<forall>d x v.
           map_of (subject_entries root d) ''eeg'' = Some x
           \<and> first_match (children x) pattern_vmrk = Some v
           \<and> first_match (children x) pattern_eeg = None \<longrightarrow>
           outcome m root d = say (WarnNoEeg d) (say (Processing d) empty_summary)
           \<and> processed m root d = Dir (subject_entries root d)"
    using outcome_no_eeg by blast
  have 7: "\<forall>d es v e.
           map_of (subject_entries root d) ''eeg'' = Some (Dir es)
           \<and> first_match es pattern_vmrk = Some v \<and> first_match es pattern_eeg = Some e
           \<and> m d ''vmrk'' = Inr None \<longrightarrow>
           outcome m root d = say (WarnUnknownRange d) (say (Processing d) empty_summary)
           \<and> processed m root d = Dir (subject_entries root d)"
    using outcome_no_mapping by blast
  have 8: "\<forall>d es v e t es1 u err.
           map_of (subject_entries root d) ''eeg'' = Some (Dir es)
           \<and> first_match es pattern_vmrk = Some v \<and> first_match es pattern_eeg = Some e
           \<and> m d ''vmrk'' = Inr (Some t) \<and> copy2 es v t = Inr es1
           \<and> m d ''eeg'' = Inr (Some u) \<and> copy2 es1 e u = Inl err \<longrightarrow>
           outcome m root d =
             say (ErrorCreating err)
               ((say (CreatedVmrk t) (say (Processing d) empty_summary))
                  \<lparr>fixed_vmrk_count := 1, error_count := 1\<rparr>)
           \<and> processed m root d =
               Dir (AList.update ''eeg'' (Dir es1) (subject_entries root d))"
    using outcome_eeg_copy_failure by blast
  have 9: "\<forall>d es v e t es1 u es2.
           map_of (subject_entries root d) ''eeg'' = Some (Dir es)
           \<and> first_match es pattern_vmrk = Some v \<and> first_match es pattern_eeg = Some e
           \<and> m d ''vmrk'' = Inr (Some t) \<and> copy2 es v t = Inr es1
           \<and> m d ''eeg'' = Inr (Some u) \<and> copy2 es1 e u = Inr es2 \<longrightarrow>
           outcome m root d =
             (say (CreatedEeg u) (say (CreatedVmrk t) (say (Processing d) empty_summary)))
                \<lparr>fixed_vmrk_count := 1, fixed_eeg_count := 1\<rparr>
           \<and> processed m root d =
               Dir (AList.update ''eeg'' (Dir es2) (subject_entries root d))"
    using outcome_success by blast
  show ?thesis
    by (rule conjI [OF 1 conjI [OF 2 conjI [OF 3 conjI [OF 4 conjI [OF 5 conjI [OF 6
          conjI [OF 7 conjI [OF 8 9]]]]]]]])
qed

theorem failures_are_isolated_witness:
  "(\<exists>sm. snd (walker get_expected_filename mixed_root) = Inr sm
      \<and> fixed_vmrk_count sm = 1 \<and> fixed_eeg_count sm = 1 \<and> error_count sm = 1
      \<and> total_subjects sm = 4)
 \<and> (\<exists>sm. snd (walker get_expected_filename partial_root) = Inr sm
      \<and> fixed_vmrk_count sm = 2 \<and> fixed_eeg_count sm = 1 \<and> error_count sm = 1
      \<and> total_subjects sm = 4
      \<and> printed sm =
          [Processing ''sub-001'', CreatedVmrk ''COCOA_013_VO.vmrk'',
           CreatedEeg ''COCOA_013_VO.eeg'',
           Processing ''sub-003'', CreatedVmrk ''COCOA_015_VO.vmrk'',
           ErrorCreating PermissionError,
           Processing ''sub-004'', WarnNoVmrk ''sub-004'',
           Processing ''sub-006'', WarnNoEeg ''sub-006''])"
proof -
  have d: "distinct (map fst mixed_root)" by code_simp
  have s: "sort_subject_dirs (subject_dirs mixed_root) =
           Inr [''sub-001'', ''sub-002'', ''sub-005'', ''sub-100'']" by code_simp
  have l: "length (subject_dirs mixed_root) = 4" by code_simp
  have o1: "fixed_vmrk_count (outcome get_expected_filename mixed_root ''sub-001'') = 1
          \<and> fixed_eeg_count (outcome get_expected_filename mixed_root ''sub-001'') = 1
          \<and> error_count (outcome get_expected_filename mixed_root ''sub-001'') = 0"
    by code_simp
  have o2: "fixed_vmrk_count (outcome get_expected_filename mixed_root ''sub-002'') = 0
          \<and> fixed_eeg_count (outcome get_expected_filename mixed_root ''sub-002'') = 0
          \<and> error_count (outcome get_expected_filename mixed_root ''sub-002'') = 1"
    by code_simp
  have o3: "fixed_vmrk_count (outcome get_expected_filename mixed_root ''sub-005'') = 0
          \<and> fixed_eeg_count (outcome get_expected_filename mixed_root ''sub-005'') = 0
          \<and> error_count (outcome get_expected_filename mixed_root ''sub-005'') = 0"
    by code_simp
  have o4: "fixed_vmrk_count (outcome get_expected_filename mixed_root ''sub-100'') = 0
          \<and> fixed_eeg_count (outcome get_expected_filename mixed_root ''sub-100'') = 0
          \<and> error_count (outcome get_expected_filename mixed_root ''sub-100'') = 0"
    by code_simp
  have a: "\<exists>sm. snd (walker get_expected_filename mixed_root) = Inr sm
      \<and> fixed_vmrk_count sm = 1 \<and> fixed_eeg_count sm = 1 \<and> error_count sm = 1
      \<and> total_subjects sm = 4"
    using failures_are_isolated [OF d s, of get_expected_filename, THEN conjunct1]
    by (auto simp: l o1 o2 o3 o4)
  have d': "distinct (map fst partial_root)" by code_simp
  have s': "sort_subject_dirs (subject_dirs partial_root) =
           Inr [''sub-001'', ''sub-003'', ''sub-004'', ''sub-006'']" by code_simp
  have l': "length (subject_dirs partial_root) = 4" by code_simp
  have p1: "outcome get_expected_filename partial_root ''sub-001'' =
           \<lparr>fixed_vmrk_count = 1, fixed_eeg_count = 1, error_count = 0, total_subjects = 0,
            printed = [Processing ''sub-001'', CreatedVmrk ''COCOA_013_VO.vmrk'',
                       CreatedEeg ''COCOA_013_VO.eeg'']\<rparr>"
    by code_simp
  have p3: "outcome get_expected_filename partial_root ''sub-003'' =
           \<lparr>fixed_vmrk_count = 1, fixed_eeg_count = 0, error_count = 1, total_subjects = 0,
            printed = [Processing ''sub-003'', CreatedVmrk ''COCOA_015_VO.vmrk'',
                       ErrorCreating PermissionError]\<rparr>"
    by code_simp
  have p4: "outcome get_expected_filename partial_root ''sub-004'' =
           \<lparr>fixed_vmrk_count = 0, fixed_eeg_count = 0, error_count = 0, total_subjects = 0,
            printed = [Processing ''sub-004'', WarnNoVmrk ''sub-004'']\<rparr>"
    by code_simp
  have p6: "outcome get_expected_filename partial_root ''sub-006'' =
           \<lparr>fixed_vmrk_count = 0, fixed_eeg_count = 0, error_count = 0, total_subjects = 0,
            printed = [Processing ''sub-006'', WarnNoEeg ''sub-006'']\<rparr>"
    by code_simp
  have b: "\<exists>sm. snd (walker get_expected_filename partial_root) = Inr sm
      \<and> fixed_vmrk_count sm = 2 \<and> fixed_eeg_count sm = 1 \<and> error_count sm = 1
      \<and> total_subjects sm = 4
      \<and> printed sm =
          [Processing ''sub-001'', CreatedVmrk ''COCOA_013_VO.vmrk'',
           CreatedEeg ''COCOA_013_VO.eeg'',
           Processing ''sub-003'', CreatedVmrk ''COCOA_015_VO.vmrk'',
           ErrorCreating PermissionError,
           Processing ''sub-004'', WarnNoVmrk ''sub-004'',
           Processing ''sub-006'', WarnNoEeg ''sub-006'']"
    using failures_are_isolated [OF d' s', of get_expected_filename, THEN conjunct1]
    by (auto simp: l' p1 p3 p4 p6)
  show ?thesis using a b by (rule conjI)
qed

section \<open>The copy step\<close>

lemma mapper_name_shape:
  assumes "m = get_expected_filename \<or> m = fix_vmrk_get_expected_filename"
    and "m d ext = Inr (Some t)"
  shows "\<exists>x. t = x @ ''_VO.'' @ ext"
  using assms
  by (auto simp: get_expected_filename_def fix_vmrk_get_expected_filename_def
      split: sum.splits if_splits)

lemma vo_vmrk_not_source:
  "\<not> glob_match pattern_vmrk (x @ ''_VO.vmrk'')" "\<not> glob_match pattern_eeg (x @ ''_VO.vmrk'')"
  unfolding glob_match_pattern_vmrk glob_match_pattern_eeg
  by (auto dest: arg_cong [where f = "\<lambda>s. take 6 (rev s)"])

lemma vo_eeg_not_source:
  "\<not> glob_match pattern_vmrk (x @ ''_VO.eeg'')" "\<not> glob_match pattern_eeg (x @ ''_VO.eeg'')"
  unfolding glob_match_pattern_vmrk glob_match_pattern_eeg
  by (auto dest: arg_cong [where f = "\<lambda>s. take 5 (rev s)"])

lemma vo_vmrk_not_vo_eeg: "x @ ''_VO.vmrk'' \<noteq> y @ ''_VO.eeg''"
  by (auto dest: arg_cong [where f = "\<lambda>s. take 1 (rev s)"])

lemma source_vmrk_not_eeg: "glob_match pattern_vmrk v \<Longrightarrow> glob_match pattern_eeg e \<Longrightarrow> v \<noteq> e"
  unfolding glob_match_pattern_vmrk glob_match_pattern_eeg
  by (auto dest: arg_cong [where f = "\<lambda>s. take 1 (rev s)"])

lemma write_file_Inr:
  "write_file es name f = Inr es' \<Longrightarrow>
   es' = AList.update name (File f) es \<and> (\<forall>ds. map_of es name \<noteq> Some (Dir ds))"
  by (auto simp: write_file_def split: option.splits node.splits if_splits)

lemma copy2_file_target:
  assumes "copy2 es src dst = Inr es'" and "\<forall>ds. map_of es dst \<noteq> Some (Dir ds)"
  shows "\<exists>f. map_of es src = Some (File f) \<and> readable f \<and> src \<noteq> dst
           \<and> es' = AList.update dst (File f) es"
proof -
  have neq: "\<not> (src = dst \<and> map_of es src \<noteq> None)"
    and "\<exists>f. read_file es src = Inr f \<and> write_file es dst f = Inr es'"
    using assms by (auto simp: copy2_def split: option.splits node.splits if_splits sum.splits)
  then obtain f where r: "read_file es src = Inr f" and w: "write_file es dst f = Inr es'"
    by blast
  from r have f: "map_of es src = Some (File f)" "readable f"
    by (auto simp: read_file_def split: option.splits node.splits if_splits)
  show ?thesis using f neq write_file_Inr [OF w] by auto
qed


text \<open>
  The copy step of either walker where no target name is taken by a directory: when the
  step counts the marker file as created, the target named by the mapper holds the file
  that the source holds, contents and metadata; the same for the data file; an existing
  file of that name is replaced; the two sources and every entry that is not a target
  are as before.
\<close>

lemma copy_step_copies:
  assumes m: "m = get_expected_filename \<or> m = fix_vmrk_get_expected_filename"
    and v: "glob_match pattern_vmrk v"
    and e: "glob_match pattern_eeg e"
    and nodir: "\<forall>t ds. m d ''vmrk'' = Inr (Some t) \<or> m d ''eeg'' = Inr (Some t) \<longrightarrow>
                  map_of es t \<noteq> Some (Dir ds)"
    and run: "copy_files m d v e es sm = (es', sm')"
  shows "(fixed_vmrk_count sm' = fixed_vmrk_count sm + 1 \<longrightarrow>
            (\<exists>tv fv. m d ''vmrk'' = Inr (Some tv) \<and> map_of es v = Some (File fv)
               \<and> map_of es' tv = Some (File fv)))
       \<and> (fixed_eeg_count sm' = fixed_eeg_count sm + 1 \<longrightarrow>
            (\<exists>te fe. m d ''eeg'' = Inr (Some te) \<and> map_of es e = Some (File fe)
               \<and> map_of es' te = Some (File fe)))
       \<and> (\<forall>k. m d ''vmrk'' \<noteq> Inr (Some k) \<and> m d ''eeg'' \<noteq> Inr (Some k) \<longrightarrow>
            map_of es' k = map_of es k)
       \<and> map_of es' v = map_of es v \<and> map_of es' e = map_of es e"
proof -
  have same: ?thesis if "es' = es" "fixed_vmrk_count sm' = fixed_vmrk_count sm"
    "fixed_eeg_count sm' = fixed_eeg_count sm"
    using that by simp
  show ?thesis
  proof (cases "m d ''vmrk''")
    case (Inl err)
    then show ?thesis using run by (intro same) (auto simp: copy_files_def say_def)
  next
    case (Inr r)
    show ?thesis
    proof (cases r)
      case None
      then show ?thesis using run Inr by (intro same) (auto simp: copy_files_def say_def)
    next
      case (Some tv)
      have tv: "m d ''vmrk'' = Inr (Some tv)" using Inr Some by simp
      obtain x where x: "tv = x @ ''_VO.vmrk''"
        using mapper_name_shape [OF m tv] by auto
      have tv_v: "tv \<noteq> v" and tv_e: "tv \<noteq> e"
        using v e vo_vmrk_not_source [of x] x by auto
      show ?thesis
      proof (cases "copy2 es v tv")
        case (Inl err)
        then show ?thesis using run tv by (intro same) (auto simp: copy_files_def say_def)
      next
        case c1: (Inr es1)
        have "\<forall>ds. map_of es tv \<noteq> Some (Dir ds)" using nodir tv by blast
        then obtain fv where fv: "map_of es v = Some (File fv)"
          and es1: "es1 = AList.update tv (File fv) es"
          using copy2_file_target [OF c1] by blast
        have m1: "map_of es1 = (map_of es)(tv \<mapsto> File fv)"
          by (simp add: es1 update_conv')
        have only_vmrk: ?thesis if "es' = es1" "fixed_vmrk_count sm' = fixed_vmrk_count sm + 1"
          "fixed_eeg_count sm' = fixed_eeg_count sm"
          using that tv fv m1 tv_v tv_e by auto
        show ?thesis
        proof (cases "m d ''eeg''")
          case (Inl err)
          then show ?thesis
            using run tv c1 by (intro only_vmrk) (auto simp: copy_files_def say_def)
        next
          case r2: (Inr r')
          show ?thesis
          proof (cases r')
            case None
            then show ?thesis
              using run tv c1 r2 by (intro only_vmrk) (auto simp: copy_files_def say_def)
          next
            case s2: (Some te)
            have te: "m d ''eeg'' = Inr (Some te)" using r2 s2 by simp
            obtain y where y: "te = y @ ''_VO.eeg''"
              using mapper_name_shape [OF m te] by auto
            have te_v: "te \<noteq> v" and te_e: "te \<noteq> e" and te_tv: "te \<noteq> tv"
              using v e vo_eeg_not_source [of y] y x vo_vmrk_not_vo_eeg [of x y] by auto
            show ?thesis
            proof (cases "copy2 es1 e te")
              case (Inl err)
              then show ?thesis
                using run tv c1 te by (intro only_vmrk) (auto simp: copy_files_def say_def)
            next
              case c2: (Inr es2)
              have "\<forall>ds. map_of es1 te \<noteq> Some (Dir ds)"
                using nodir te te_tv by (simp add: m1)
              then obtain fe where fe1: "map_of es1 e = Some (File fe)"
                and es2: "es2 = AList.update te (File fe) es1"
                using copy2_file_target [OF c2] by blast
              have fe: "map_of es e = Some (File fe)" using fe1 tv_e by (simp add: m1)
              have m2: "map_of es2 = (map_of es)(tv \<mapsto> File fv, te \<mapsto> File fe)"
                by (simp add: es2 update_conv' m1)
              have res: "es' = es2" "fixed_vmrk_count sm' = fixed_vmrk_count sm + 1"
                "fixed_eeg_count sm' = fixed_eeg_count sm + 1"
                using run tv c1 te c2 by (auto simp: copy_files_def say_def)
              show ?thesis
                using res tv te fv fe m2 tv_v tv_e te_v te_e te_tv by auto
            qed
          qed
        qed
      qed
    qed
  qed
qed


lemma copy_step_copies_example:
  "map_of (fst (copy_files get_expected_filename ''sub-001''
             ''sub-001_task-visualoddball_eeg.vmrk'' ''sub-001_task-visualoddball_eeg.eeg''
             listing_target_file empty_summary)) ''COCOA_013_VO.vmrk'' =
     Some (File (plain_file ''m1''))
 \<and> map_of (fst (copy_files get_expected_filename ''sub-001''
             ''sub-001_task-visualoddball_eeg.vmrk'' ''sub-001_task-visualoddball_eeg.eeg''
             listing_target_file empty_summary)) ''COCOA_013_VO.eeg'' =
     Some (File (plain_file ''d1''))
 \<and> map_of (fst (copy_files get_expected_filename ''sub-001''
             ''sub-001_task-visualoddball_eeg.vmrk'' ''sub-001_task-visualoddball_eeg.eeg''
             listing_target_file empty_summary)) ''sub-001_task-visualoddball_eeg.vmrk'' =
     Some (File (plain_file ''m1''))"
proof -
  define X where "X = copy_files get_expected_filename ''sub-001''
             ''sub-001_task-visualoddball_eeg.vmrk'' ''sub-001_task-visualoddball_eeg.eeg''
             listing_target_file empty_summary"
  have m: "get_expected_filename = get_expected_filename
             \<or> get_expected_filename = fix_vmrk_get_expected_filename" by simp
  have gv: "glob_match pattern_vmrk ''sub-001_task-visualoddball_eeg.vmrk''" by code_simp
  have ge: "glob_match pattern_eeg ''sub-001_task-visualoddball_eeg.eeg''" by code_simp
  have tv: "get_expected_filename ''sub-001'' ''vmrk'' = Inr (Some ''COCOA_013_VO.vmrk'')"
    by code_simp
  have te: "get_expected_filename ''sub-001'' ''eeg'' = Inr (Some ''COCOA_013_VO.eeg'')"
    by code_simp
  have nodir: "\<forall>t ds. get_expected_filename ''sub-001'' ''vmrk'' = Inr (Some t)
                 \<or> get_expected_filename ''sub-001'' ''eeg'' = Inr (Some t) \<longrightarrow>
               map_of listing_target_file t \<noteq> Some (Dir ds)"
    unfolding tv te by (auto simp: listing_target_file_def)
  have run: "copy_files get_expected_filename ''sub-001''
             ''sub-001_task-visualoddball_eeg.vmrk'' ''sub-001_task-visualoddball_eeg.eeg''
             listing_target_file empty_summary = (fst X, snd X)"
    by (simp add: X_def)
  have c1: "fixed_vmrk_count (snd X) = fixed_vmrk_count empty_summary + 1"
    unfolding X_def by code_simp
  have c2: "fixed_eeg_count (snd X) = fixed_eeg_count empty_summary + 1"
    unfolding X_def by code_simp
  have sv: "map_of listing_target_file ''sub-001_task-visualoddball_eeg.vmrk'' =
            Some (File (plain_file ''m1''))"
    by (simp add: listing_target_file_def)
  have se: "map_of listing_target_file ''sub-001_task-visualoddball_eeg.eeg'' =
            Some (File (plain_file ''d1''))"
    by (simp add: listing_target_file_def)
  show ?thesis
    using copy_step_copies [OF m gv ge nodir run] c1 c2
    unfolding tv te sv se X_def [symmetric] by auto
qed

text \<open>
  Claim C3 fails in the code. Both walkers hand the target path to \<^verbatim>\<open>shutil.copy2\<close>
  unchecked, under the comment \<^verbatim>\<open># Copy vmrk file with new name\<close>. Where the name of the
  target is a directory already, \<^verbatim>\<open>copy2\<close> puts the copy inside it under the name of the
  source: the run prints \<^verbatim>\<open>Created vmrk: COCOA_013_VO.vmrk\<close> and counts the file, no error
  is counted, and no file of that name exists; \<^verbatim>\<open>COCOA_013_VO.vmrk\<close> is still a
  directory, now holding \<^verbatim>\<open>sub-001_task-visualoddball_eeg.vmrk\<close>. The same happens in
  \<^verbatim>\<open>fix_vmrk_files.py\<close> with its target \<^verbatim>\<open>COCOA_014_VO.vmrk\<close>.
\<close>

theorem copy_step_misnames_copy:
  "snd (recreate_correct_files [(''sub-001'', Dir [(''eeg'', Dir listing_target_dir)])]) =
     Inr \<lparr>fixed_vmrk_count = 1, fixed_eeg_count = 1, error_count = 0, total_subjects = 1,
          printed = [Processing ''sub-001'', CreatedVmrk ''COCOA_013_VO.vmrk'',
                     CreatedEeg ''COCOA_013_VO.eeg'']\<rparr>
 \<and> lookup (fst (recreate_correct_files [(''sub-001'', Dir [(''eeg'', Dir listing_target_dir)])]))
      [''sub-001'', ''eeg'', ''COCOA_013_VO.vmrk''] =
     Some (Dir [(''sub-001_task-visualoddball_eeg.vmrk'', File (plain_file ''m1''))])
 \<and> snd (fix_vmrk_files [(''sub-001'', Dir [(''eeg'', Dir listing_target_dir_014)])]) =
     Inr \<lparr>fixed_vmrk_count = 1, fixed_eeg_count = 1, error_count = 0, total_subjects = 1,
          printed = [Processing ''sub-001'', CreatedVmrk ''COCOA_014_VO.vmrk'',
                     CreatedEeg ''COCOA_014_VO.eeg'']\<rparr>
 \<and> lookup (fst (fix_vmrk_files [(''sub-001'', Dir [(''eeg'', Dir listing_target_dir_014)])]))
      [''sub-001'', ''eeg'', ''COCOA_014_VO.vmrk''] =
     Some (Dir [(''sub-001_task-visualoddball_eeg.vmrk'', File (plain_file ''m1''))])"
  by code_simp

text \<open>
  Through \<^verbatim>\<open>main\<close> of \<^verbatim>\<open>cleanup_and_fix.py\<close> the same tree gives an error instead: the
  cleanup has taken the search permission of the directory \<^verbatim>\<open>COCOA_013_VO.vmrk\<close> away,
  and the copy into it fails.
\<close>

lemma main_on_target_dir:
  "snd (main [(''sub-001'', Dir [(''eeg'', Dir listing_target_dir)])]) =
     Inr \<lparr>fixed_vmrk_count = 0, fixed_eeg_count = 0, error_count = 1, total_subjects = 1,
          printed = [Processing ''sub-001'', ErrorCreating PermissionError]\<rparr>
 \<and> fst (main [(''sub-001'', Dir [(''eeg'', Dir listing_target_dir)])]) =
     [(''sub-001'', Dir [(''eeg'', Dir listing_target_dir)])]"
  by code_simp

section \<open>A second run\<close>

lemma update_keys_filter:
  "\<not> P k \<Longrightarrow> filter P (map fst (AList.update k v al)) = filter P (map fst al)"
  by (simp add: update_keys)

lemma write_file_post:
  assumes "write_file es name f = Inr es'"
  shows "map_of es' = (map_of es)(name \<mapsto> File f)"
    and "\<not> P name \<Longrightarrow> filter P (map fst es') = filter P (map fst es)"
  using write_file_Inr [OF assms] by (simp_all add: update_conv' update_keys_filter)

lemma copy2_post:
  assumes "copy2 es src dst = Inr es'"
  shows "\<exists>f. read_file es src = Inr f \<and> src \<noteq> dst \<and> holds_copy es' dst src f
           \<and> (\<forall>k. k \<noteq> dst \<longrightarrow> map_of es' k = map_of es k)"
    and "\<not> P dst \<Longrightarrow> filter P (map fst es') = filter P (map fst es)"
proof -
  show "\<exists>f. read_file es src = Inr f \<and> src \<noteq> dst \<and> holds_copy es' dst src f
           \<and> (\<forall>k. k \<noteq> dst \<longrightarrow> map_of es' k = map_of es k)"
  proof (cases "\<exists>ds. map_of es dst = Some (Dir ds)")
    case True
    then obtain ds where ds: "map_of es dst = Some (Dir ds)" by blast
    from assms ds obtain f ds' where f: "read_file es src = Inr f"
      and w: "write_file ds src f = Inr ds'" and es': "es' = AList.update dst (Dir ds') es"
      by (auto simp: copy2_def split: sum.splits)
    have "src \<noteq> dst" using f ds by (auto simp: read_file_def)
    moreover have "holds_copy es' dst src f"
      using write_file_post(1) [OF w] by (simp add: holds_copy_def es' update_conv')
    moreover have "\<forall>k. k \<noteq> dst \<longrightarrow> map_of es' k = map_of es k"
      by (simp add: es' update_conv')
    ultimately show ?thesis using f by blast
  next
    case False
    with assms obtain f where ne: "\<not> (src = dst \<and> map_of es src \<noteq> None)"
      and f: "read_file es src = Inr f" and w: "write_file es dst f = Inr es'"
      by (auto simp: copy2_def split: sum.splits option.splits node.splits if_splits)
    have "src \<noteq> dst" using f ne by (auto simp: read_file_def split: option.splits)
    moreover have "holds_copy es' dst src f"
      using write_file_post(1) [OF w] by (simp add: holds_copy_def)
    moreover have "\<forall>k. k \<noteq> dst \<longrightarrow> map_of es' k = map_of es k"
      using write_file_post(1) [OF w] by simp
    ultimately show ?thesis using f by blast
  qed
  show "filter P (map fst es') = filter P (map fst es)" if "\<not> P dst"
  proof (cases "\<exists>ds. map_of es dst = Some (Dir ds)")
    case True
    then obtain ds where ds: "map_of es dst = Some (Dir ds)" by blast
    from assms ds obtain ds' where "es' = AList.update dst (Dir ds') es"
      by (auto simp: copy2_def split: sum.splits)
    then show ?thesis using that by (simp add: update_keys_filter)
  next
    case False
    with assms obtain f where "write_file es dst f = Inr es'"
      by (auto simp: copy2_def split: sum.splits option.splits node.splits if_splits)
    then show ?thesis using that by (rule write_file_post(2))
  qed
qed

lemma copy2_again:
  assumes "read_file es src = Inr f" and "src \<noteq> dst" and "holds_copy es dst src f"
  shows "copy2 es src dst = (if writable f then Inr es else Inl PermissionError)"
proof (cases "map_of es dst")
  case None
  then show ?thesis using assms(3) by (simp add: holds_copy_def)
next
  case (Some x)
  show ?thesis
  proof (cases x)
    case (File g)
    then have g: "map_of es dst = Some (File f)"
      using Some assms(3) by (simp add: holds_copy_def)
    then show ?thesis
      using assms(1,2) by (simp add: copy2_def write_file_def AList.update_triv)
  next
    case (Dir ds)
    then have ds: "map_of es dst = Some (Dir ds)" "map_of ds src = Some (File f)"
      using Some assms(3) by (simp_all add: holds_copy_def)
    then show ?thesis
      using assms(1) by (simp add: copy2_def write_file_def AList.update_triv)
  qed
qed


lemma read_file_cong: "map_of es' k = map_of es k \<Longrightarrow> read_file es' k = read_file es k"
  by (simp add: read_file_def)

lemma holds_copy_cong:
  "map_of es' dst = map_of es dst \<Longrightarrow> holds_copy es' dst src f = holds_copy es dst src f"
  by (simp add: holds_copy_def)

lemma copy_files_again:
  assumes m: "m = get_expected_filename \<or> m = fix_vmrk_get_expected_filename"
    and v: "glob_match pattern_vmrk v"
    and e: "glob_match pattern_eeg e"
    and run: "copy_files m d v e es sm = (es', sm')"
  shows "fst (copy_files m d v e es' sm) = es'
       \<and> ((\<forall>f. read_file es v = Inr f \<longrightarrow> writable f) \<and>
           (\<forall>f. read_file es e = Inr f \<longrightarrow> writable f) \<longrightarrow>
           copy_files m d v e es' sm = (es', sm'))
       \<and> filter (glob_match pattern_vmrk) (map fst es') =
           filter (glob_match pattern_vmrk) (map fst es)
       \<and> filter (glob_match pattern_eeg) (map fst es') =
           filter (glob_match pattern_eeg) (map fst es)"
proof -
  have same: ?thesis if "es' = es"
    using that run by simp
  show ?thesis
  proof (cases "m d ''vmrk''")
    case (Inl err)
    then show ?thesis using run by (intro same) (auto simp: copy_files_def)
  next
    case (Inr r)
    show ?thesis
    proof (cases r)
      case None
      then show ?thesis using run Inr by (intro same) (auto simp: copy_files_def)
    next
      case (Some tv)
      have tv: "m d ''vmrk'' = Inr (Some tv)" using Inr Some by simp
      obtain x where x: "tv = x @ ''_VO.vmrk''"
        using mapper_name_shape [OF m tv] by auto
      have tv_v: "tv \<noteq> v" and tv_e: "tv \<noteq> e"
        using v e vo_vmrk_not_source [of x] x by auto
      have tv_p: "\<not> glob_match pattern_vmrk tv" "\<not> glob_match pattern_eeg tv"
        using vo_vmrk_not_source [of x] x by auto
      show ?thesis
      proof (cases "copy2 es v tv")
        case (Inl err)
        then show ?thesis using run tv by (intro same) (auto simp: copy_files_def)
      next
        case c1: (Inr es1)
        obtain fv where fv: "read_file es v = Inr fv" and h1: "holds_copy es1 tv v fv"
          and fr1: "\<forall>k. k \<noteq> tv \<longrightarrow> map_of es1 k = map_of es k"
          using copy2_post(1) [OF c1] by blast
        have k1: "filter (glob_match pattern_vmrk) (map fst es1) =
                  filter (glob_match pattern_vmrk) (map fst es)"
          "filter (glob_match pattern_eeg) (map fst es1) =
                  filter (glob_match pattern_eeg) (map fst es)"
          using copy2_post(2) [OF c1] tv_p by blast+
        have rv1: "read_file es1 v = Inr fv"
          using fv fr1 tv_v read_file_cong [of es1 v es] by simp
        have re1: "read_file es1 e = read_file es e"
          using fr1 tv_e read_file_cong [of es1 e es] by simp
        have a1: "copy2 es1 v tv = (if writable fv then Inr es1 else Inl PermissionError)"
          using copy2_again [OF rv1 _ h1] tv_v by simp
        have first: "copy_files m d v e es sm = copy_files m d v e es1 sm"
          if "writable fv" "es' = es1"
        proof -
          have "copy2 es1 v tv = Inr es1" using a1 that(1) by simp
          then show ?thesis using tv c1 by (simp add: copy_files_def)
        qed
        show ?thesis
        proof (cases "m d ''eeg''")
          case (Inl err)
          then have es': "es' = es1" using run tv c1 by (auto simp: copy_files_def)
          have "copy_files m d v e es1 sm = (es', sm')" if "writable fv"
            using first [OF that es'] run by simp
          then show ?thesis using es' a1 tv fv k1
            by (cases "writable fv") (auto simp: copy_files_def)
        next
          case r2: (Inr r')
          show ?thesis
          proof (cases r')
            case None
            then have es': "es' = es1" using run tv c1 r2 by (auto simp: copy_files_def)
            have "copy_files m d v e es1 sm = (es', sm')" if "writable fv"
              using first [OF that es'] run by simp
            then show ?thesis using es' a1 tv fv k1
              by (cases "writable fv") (auto simp: copy_files_def)
          next
            case s2: (Some te)
            have te: "m d ''eeg'' = Inr (Some te)" using r2 s2 by simp
            obtain y where y: "te = y @ ''_VO.eeg''"
              using mapper_name_shape [OF m te] by auto
            have te_v: "te \<noteq> v" and te_e: "te \<noteq> e" and te_tv: "te \<noteq> tv"
              using v e vo_eeg_not_source [of y] y x vo_vmrk_not_vo_eeg [of x y] by auto
            have te_p: "\<not> glob_match pattern_vmrk te" "\<not> glob_match pattern_eeg te"
              using vo_eeg_not_source [of y] y by auto
            show ?thesis
            proof (cases "copy2 es1 e te")
              case (Inl err)
              then have es': "es' = es1" using run tv c1 te by (auto simp: copy_files_def)
              have "copy_files m d v e es1 sm = (es', sm')" if "writable fv"
                using first [OF that es'] run by simp
              then show ?thesis using es' a1 tv fv k1
                by (cases "writable fv") (auto simp: copy_files_def)
            next
              case c2: (Inr es2)
              have es': "es' = es2" using run tv c1 te c2 by (auto simp: copy_files_def)
              obtain fe where fe1: "read_file es1 e = Inr fe" and h2: "holds_copy es2 te e fe"
                and fr2: "\<forall>k. k \<noteq> te \<longrightarrow> map_of es2 k = map_of es1 k"
                using copy2_post(1) [OF c2] by blast
              have fe: "read_file es e = Inr fe" using fe1 re1 by simp
              have k2: "filter (glob_match pattern_vmrk) (map fst es2) =
                        filter (glob_match pattern_vmrk) (map fst es)"
                "filter (glob_match pattern_eeg) (map fst es2) =
                        filter (glob_match pattern_eeg) (map fst es)"
                using copy2_post(2) [OF c2] te_p k1 by auto
              have rv2: "read_file es2 v = Inr fv"
                using rv1 fr2 te_v read_file_cong [of es2 v es1] by simp
              have re2: "read_file es2 e = Inr fe"
                using fe1 fr2 te_e read_file_cong [of es2 e es1] by simp
              have h1': "holds_copy es2 tv v fv"
                using h1 fr2 te_tv holds_copy_cong [of es2 tv es1] by simp
              have a2: "copy2 es2 v tv = (if writable fv then Inr es2 else Inl PermissionError)"
                using copy2_again [OF rv2 _ h1'] tv_v by simp
              have b2: "copy2 es2 e te = (if writable fe then Inr es2 else Inl PermissionError)"
                using copy2_again [OF re2 _ h2] te_e by simp
              have fst2: "fst (copy_files m d v e es2 sm) = es2"
                using tv te a2 b2 by (simp add: copy_files_def Let_def)
              have full: "copy_files m d v e es2 sm = copy_files m d v e es sm"
                if "writable fv" "writable fe"
                using that tv te a2 b2 c1 c2 by (simp add: copy_files_def Let_def)
              show ?thesis
                using es' fst2 full run fv fe k2 by auto
            qed
          qed
        qed
      qed
    qed
  qed
qed


lemma glob_first: "glob es p = v # vs \<Longrightarrow> first_match es p = Some v \<and> glob_match p v"
  unfolding glob_def first_match_def
  by (induction "map fst es" arbitrary: es) (auto split: if_splits)

lemma source_writable_read:
  assumes "source_writable es p" and "first_match es p = Some v"
  shows "\<forall>f. read_file es v = Inr f \<longrightarrow> writable f"
  using assms
  by (auto simp: source_writable_def read_file_def split: option.splits node.splits if_splits)

lemma process_subject_again:
  assumes m: "m = get_expected_filename \<or> m = fix_vmrk_get_expected_filename"
    and run: "process_subject m d sd sm = (sd', sm')"
  shows "fst (process_subject m d sd' sm) = sd'
       \<and> (sources_writable sd \<longrightarrow> process_subject m d sd' sm = (sd', sm'))"
proof -
  have same: ?thesis if "sd' = sd" using that run by simp
  show ?thesis
  proof (cases "map_of sd ''eeg''")
    case None
    then show ?thesis using run by (intro same) (simp add: process_subject_def)
  next
    case (Some x)
    show ?thesis
    proof (cases "glob (children x) pattern_vmrk")
      case Nil
      then show ?thesis using run Some by (intro same) (simp add: process_subject_def)
    next
      case gv: (Cons v vs)
      show ?thesis
      proof (cases "glob (children x) pattern_eeg")
        case Nil
        then show ?thesis using run Some gv by (intro same) (simp add: process_subject_def)
      next
        case ge: (Cons e ws)
        obtain es where x: "x = Dir es" using glob_children_Cons [OF gv] by blast
        have gv': "glob es pattern_vmrk = v # vs" and ge': "glob es pattern_eeg = e # ws"
          using gv ge x by simp_all
        define sm0 where "sm0 = say (Processing d) sm"
        obtain es' sm1 where cf: "copy_files m d v e es sm0 = (es', sm1)"
          by (cases "copy_files m d v e es sm0")
        have res: "sd' = AList.update ''eeg'' (Dir es') sd" "sm' = sm1"
          using run Some x gv' ge' cf by (simp_all add: process_subject_def sm0_def)
        note again = copy_files_again [OF m _ _ cf]
        have mv: "glob_match pattern_vmrk v" and me: "glob_match pattern_eeg e"
          using glob_first [OF gv'] glob_first [OF ge'] by simp_all
        have fst': "fst (copy_files m d v e es' sm0) = es'"
          using again [OF mv me] by simp
        have gv2: "glob es' pattern_vmrk = v # vs" and ge2: "glob es' pattern_eeg = e # ws"
          using again [OF mv me] gv' ge' by (simp_all add: glob_def)
        have eeg': "map_of sd' ''eeg'' = Some (Dir es')"
          by (simp add: res(1) update_conv')
        have upd: "AList.update ''eeg'' (Dir es') sd' = sd'"
          using eeg' by (rule AList.update_triv)
        have 1: "fst (process_subject m d sd' sm) = sd'"
          using eeg' gv2 ge2 fst' upd
          by (simp add: process_subject_def sm0_def [symmetric] case_prod_beta)
        have 2: "process_subject m d sd' sm = (sd', sm')" if w: "sources_writable sd"
        proof -
          have "source_writable es pattern_vmrk" "source_writable es pattern_eeg"
            using w Some x by (simp_all add: sources_writable_def)
          then have "\<forall>f. read_file es v = Inr f \<longrightarrow> writable f"
            "\<forall>f. read_file es e = Inr f \<longrightarrow> writable f"
            using source_writable_read glob_first [OF gv'] glob_first [OF ge'] by blast+
          then have "copy_files m d v e es' sm0 = (es', sm1)"
            using again [OF mv me] by blast
          then show ?thesis
            using eeg' gv2 ge2 upd res(2)
            by (simp add: process_subject_def sm0_def [symmetric])
        qed
        show ?thesis using 1 2 by blast
      qed
    qed
  qed
qed


lemma walker_by_subject:
  assumes "distinct (map fst root)"
    and "sort_subject_dirs (subject_dirs root) = Inr ds"
  shows "walker m root =
     (map (\<lambda>(n, x). if n \<in> set (subject_dirs root) then (n, processed m root n)
                    else (n, x)) root,
      Inr (fold (\<lambda>d s. add_summary s (outcome m root d)) ds
             (empty_summary\<lparr>total_subjects := length ds\<rparr>)))"
proof -
  note props = sort_subject_dirs_props [OF assms(2)]
  have dist: "distinct ds"
    using props(3) distinct_subject_dirs [OF assms(1)] by simp
  have dirs: "\<forall>d\<in>set ds. \<exists>sd. map_of root d = Some (Dir sd)"
    using subject_dirs_Dir [OF assms(1)] props(1) by simp
  show ?thesis
    by (simp add: walker_Inr [OF assms(2)] fold_loop_step [OF dist assms(1) dirs] props(1))
qed

lemma map_of_map_keyed:
  "map_of (map (\<lambda>(k, v). (k, g k v)) xs) k = map_option (g k) (map_of xs k)"
  by (induction xs) auto

lemma processed_is_dir: "is_dir (processed m root d)"
  by (simp add: processed_def)

lemma second_run:
  assumes m: "m = get_expected_filename \<or> m = fix_vmrk_get_expected_filename"
    and dist: "distinct (map fst root)"
    and sort: "sort_subject_dirs (subject_dirs root) = Inr ds"
  shows "fst (walker m (fst (walker m root))) = fst (walker m root)"
    and "all_sources_writable root \<Longrightarrow> walker m (fst (walker m root)) = walker m root"
proof -
  define S where "S = set (subject_dirs root)"
  define g where "g = (\<lambda>n x. if n \<in> S then processed m root n else x)"
  define root' where "root' = map (\<lambda>(n, x). (n, g n x)) root"
  let ?s0 = "empty_summary\<lparr>total_subjects := length ds\<rparr>"
  have w1: "walker m root = (root', Inr (fold (\<lambda>d s. add_summary s (outcome m root d)) ds ?s0))"
  proof -
    have "(\<lambda>(n, x). if n \<in> set (subject_dirs root) then (n, processed m root n) else (n, x)) =
          (\<lambda>(n, x). (n, g n x))"
      by (auto simp: g_def S_def fun_eq_iff)
    then show ?thesis
      using walker_by_subject [OF dist sort, of m] by (simp add: root'_def)
  qed
  have keys: "map fst root' = map fst root"
    by (simp add: root'_def case_prod_beta o_def)
  have dist': "distinct (map fst root')" using dist keys by simp
  have dirs: "is_dir (g n x) = is_dir x" if "(n, x) \<in> set root" for n x
  proof (cases "n \<in> S")
    case True
    then obtain y where "(n, y) \<in> set root" "is_dir y"
      using subject_dirs_iff by (auto simp: S_def)
    then have "y = x" using that dist by (meson eq_key_imp_eq_value)
    then show ?thesis using True \<open>is_dir y\<close> by (simp add: g_def processed_is_dir)
  next
    case False
    then show ?thesis by (simp add: g_def)
  qed
  have sd': "subject_dirs root' = subject_dirs root"
  proof -
    have "filter (\<lambda>(n, x). is_dir x \<and> startswith n ''sub-'') root' =
          map (\<lambda>(n, x). (n, g n x)) (filter (\<lambda>(n, x). is_dir x \<and> startswith n ''sub-'') root)"
      unfolding root'_def filter_map
      by (rule arg_cong [where f = "map _"], rule filter_cong [OF refl]) (auto simp: dirs)
    then show ?thesis
      by (simp add: subject_dirs_def case_prod_beta o_def)
  qed
  have sort': "sort_subject_dirs (subject_dirs root') = Inr ds" using sort sd' by simp
  have entries': "subject_entries root' d =
      fst (process_subject m d (subject_entries root d) empty_summary)" if "d \<in> S" for d
  proof -
    have "d \<in> set (subject_dirs root)" using that by (simp add: S_def)
    then obtain sd where "map_of root d = Some (Dir sd)"
      using subject_dirs_Dir [OF dist] by blast
    then have "map_of root' d = Some (processed m root d)"
      using that by (simp add: root'_def map_of_map_keyed g_def)
    then show ?thesis by (simp add: subject_entries_def processed_def)
  qed
  have proc: "processed m root' d = processed m root d" if "d \<in> S" for d
    using process_subject_again [OF m, of d "subject_entries root d" empty_summary]
      entries' [OF that]
    by (simp add: processed_def prod_eq_iff)
  have w2: "walker m root' =
     (map (\<lambda>(n, x). if n \<in> S then (n, processed m root' n) else (n, x)) root',
      Inr (fold (\<lambda>d s. add_summary s (outcome m root' d)) ds ?s0))"
    using walker_by_subject [OF dist' sort', of m] by (simp add: sd' S_def)
  have fs: "map (\<lambda>(n, x). if n \<in> S then (n, processed m root' n) else (n, x)) root' = root'"
  proof -
    have "map (\<lambda>(n, x). if n \<in> S then (n, processed m root' n) else (n, x)) root' =
          map (\<lambda>(n, x). if n \<in> S then (n, processed m root n) else (n, x)) root'"
      by (rule map_cong [OF refl]) (auto simp: proc)
    also have "\<dots> = map (\<lambda>(n, x). (n, g n x)) root"
      unfolding root'_def map_map
      by (rule map_cong [OF refl]) (auto simp: g_def)
    finally show ?thesis by (simp add: root'_def)
  qed
  show "fst (walker m (fst (walker m root))) = fst (walker m root)"
    by (simp add: w1 w2 fs)
  show "walker m (fst (walker m root)) = walker m root" if aw: "all_sources_writable root"
  proof -
    have out: "outcome m root' d = outcome m root d" if "d \<in> set ds" for d
    proof -
      have dS: "d \<in> S" using that sort_subject_dirs_props(1) [OF sort] by (simp add: S_def)
      then have "sources_writable (subject_entries root d)"
        using aw by (simp add: all_sources_writable_def list_all_iff S_def)
      then show ?thesis
        using process_subject_again [OF m, of d "subject_entries root d" empty_summary]
          entries' [OF dS]
        by (simp add: outcome_def prod_eq_iff)
    qed
    have "fold (\<lambda>d s. add_summary s (outcome m root' d)) ds ?s0 =
          fold (\<lambda>d s. add_summary s (outcome m root d)) ds ?s0"
      by (rule fold_cong) (simp_all add: out)
    then show ?thesis by (simp add: w1 w2 fs)
  qed
qed


text \<open>
  Claim C5, as the code has it. On a root with distinct names, a second run of either
  walker leaves the file system exactly as the first run left it: the same target files
  with the same contents and metadata. If the source files that the walker selects are
  writable, the second run also returns the summary of the first, so its error count is
  the same. (\<^verbatim>\<open>copy2\<close> copies the permission bits, so the copy of a read-only source is
  read-only and cannot be overwritten.)
\<close>

theorem second_run_changes_nothing:
  assumes "m = get_expected_filename \<or> m = fix_vmrk_get_expected_filename"
    and "distinct (map fst root)"
  shows "fst (walker m (fst (walker m root))) = fst (walker m root)
       \<and> (all_sources_writable root \<longrightarrow> walker m (fst (walker m root)) = walker m root)"
proof (cases "sort_subject_dirs (subject_dirs root)")
  case (Inl err)
  then show ?thesis by (simp add: walker_Inl)
next
  case (Inr ds)
  show ?thesis
    using second_run [OF assms Inr] by blast
qed

theorem second_run_changes_nothing_witness:
  "walker get_expected_filename (fst (walker get_expected_filename mixed_root)) =
     walker get_expected_filename mixed_root"
proof -
  have m: "get_expected_filename = get_expected_filename
             \<or> get_expected_filename = fix_vmrk_get_expected_filename" by simp
  have d: "distinct (map fst mixed_root)" by code_simp
  have w: "all_sources_writable mixed_root" by code_simp
  show ?thesis
    using second_run_changes_nothing [OF m d] w by blast
qed

text \<open>
  Claim C5, as stated, fails: with a read-only marker file the first run has no error,
  and the second run fails to overwrite the read-only copy and has one.
\<close>

theorem second_run_counterexample:
  "snd (recreate_correct_files
          [subject_tree ''sub-001'' (readonly_file ''m'') (plain_file ''d'')]) =
     Inr \<lparr>fixed_vmrk_count = 1, fixed_eeg_count = 1, error_count = 0, total_subjects = 1,
          printed = [Processing ''sub-001'', CreatedVmrk ''COCOA_013_VO.vmrk'',
                     CreatedEeg ''COCOA_013_VO.eeg'']\<rparr>
 \<and> snd (recreate_correct_files (fst (recreate_correct_files
          [subject_tree ''sub-001'' (readonly_file ''m'') (plain_file ''d'')]))) =
     Inr \<lparr>fixed_vmrk_count = 0, fixed_eeg_count = 0, error_count = 1, total_subjects = 1,
          printed = [Processing ''sub-001'', ErrorCreating PermissionError]\<rparr>"
  by code_simp

section \<open>Cleanup after the walker\<close>

lemma rglob_Cons:
  "set (rglob ((n, x) # es) pat) =
     (if glob_match pat n then {[n]} else {})
     \<union> (case x of Dir ds \<Rightarrow> (#) n ` set (rglob ds pat) | File f \<Rightarrow> {})
     \<union> set (rglob es pat)"
proof -
  have a: "set (rglob ((n, x) # es) pat) =
      (\<lambda>n. [n]) ` set (glob ((n, x) # es) pat) \<union> set (rglob_subdirs ((n, x) # es) pat)"
    by (subst rglob.simps) simp
  have b: "set (rglob es pat) =
      (\<lambda>n. [n]) ` set (glob es pat) \<union> set (rglob_subdirs es pat)"
    by (subst rglob.simps) simp
  show ?thesis
    unfolding a b by (cases x) (auto simp: glob_def)
qed

lemma rglob_Nil: "rglob [] pat = []"
  by (simp add: rglob.simps glob_def)

lemma rglob_matches:
  "p \<in> set (rglob es pat) \<Longrightarrow> p \<noteq> [] \<and> glob_match pat (last p)"
proof (induction es arbitrary: p rule: file_paths.induct)
  case 1
  then show ?case by (simp add: rglob_Nil)
next
  case (2 n f es)
  then show ?case
    by (simp only: rglob_Cons) (auto split: if_splits)
next
  case (3 n ds es)
  from "3.prems" consider "p = [n]" "glob_match pat n"
    | q where "p = n # q" "q \<in> set (rglob ds pat)"
    | "p \<in> set (rglob es pat)"
    by (simp only: rglob_Cons) (auto split: if_splits)
  then show ?case
  proof cases
    case 1
    then show ?thesis by simp
  next
    case 2
    then show ?thesis using "3.IH"(1) [of q] by simp
  next
    case 3
    then show ?thesis using "3.IH"(2) by simp
  qed
qed

lemma rglob_entry:
  "(n, x) \<in> set es \<Longrightarrow> glob_match pat n \<Longrightarrow> [n] \<in> set (rglob es pat)"
proof (induction es)
  case Nil
  then show ?case by simp
next
  case (Cons a es)
  obtain k y where a: "a = (k, y)" by (cases a)
  show ?case
  proof (cases "(n, x) = a")
    case True
    then show ?thesis using Cons.prems(2) a by (simp only: rglob_Cons) simp
  next
    case False
    then have "[n] \<in> set (rglob es pat)" using Cons by simp
    then show ?thesis unfolding a by (simp only: rglob_Cons) simp
  qed
qed

lemma rglob_below:
  "(n, Dir ds) \<in> set es \<Longrightarrow> q \<in> set (rglob ds pat) \<Longrightarrow> n # q \<in> set (rglob es pat)"
proof (induction es)
  case Nil
  then show ?case by simp
next
  case (Cons a es)
  obtain k y where a: "a = (k, y)" by (cases a)
  show ?case
  proof (cases "(n, Dir ds) = a")
    case True
    then show ?thesis using Cons.prems(2) a by (simp only: rglob_Cons) auto
  next
    case False
    then have "n # q \<in> set (rglob es pat)" using Cons by simp
    then show ?thesis unfolding a by (simp only: rglob_Cons) simp
  qed
qed

lemma lookup_rglob:
  "lookup es p = Some x \<Longrightarrow> glob_match pat (last p) \<Longrightarrow> p \<in> set (rglob es pat)"
proof (induction es p arbitrary: x rule: lookup.induct)
  case (1 es)
  then show ?case by simp
next
  case (2 es n)
  then have "(n, x) \<in> set es" by (simp add: map_of_SomeD)
  then show ?case using "2.prems"(2) rglob_entry by simp
next
  case (3 es n m p)
  from "3.prems"(1) obtain ds where ds: "map_of es n = Some (Dir ds)"
    and l: "lookup ds (m # p) = Some x"
    by (auto split: option.splits node.splits)
  have "m # p \<in> set (rglob ds pat)"
    using "3.IH" [OF ds refl l] "3.prems"(2) by simp
  moreover have "(n, Dir ds) \<in> set es" using ds by (simp add: map_of_SomeD)
  ultimately show ?case by (simp add: rglob_below)
qed

lemma path_cases:
  obtains "q = []" | k where "q = [k]" | k j r where "q = k # j # r"
  by (metis neq_Nil_conv)

lemma chmod_644_tree_Inl: "chmod_644_tree p es = Inl e \<Longrightarrow> lookup es p = None"
  by (induction p es arbitrary: e rule: chmod_644_tree.induct)
     (auto split: option.splits node.splits sum.splits)

lemma chmod_644_tree_file:
  "chmod_644_tree p es = Inr es' \<Longrightarrow>
   (\<exists>f. lookup es' q = Some (File f)) \<longleftrightarrow> (\<exists>f. lookup es q = Some (File f))"
proof (induction p es arbitrary: es' q rule: chmod_644_tree.induct)
  case (1 es)
  then show ?case by simp
next
  case (2 n es)
  show ?case
  proof (cases q rule: path_cases)
    case 1
    then show ?thesis by simp
  next
    case (2 k)
    then show ?thesis using "2.prems"
      by (auto simp: update_conv' split: option.splits node.splits if_splits)
  next
    case (3 k j r)
    then show ?thesis using "2.prems"
      by (auto simp: update_conv' split: option.splits node.splits if_splits)
  qed
next
  case (3 n m p es)
  from "3.prems" obtain ds ds' where ds: "map_of es n = Some (Dir ds)"
    and c: "chmod_644_tree (m # p) ds = Inr ds'" and es': "es' = AList.update n (Dir ds') es"
    by (auto split: option.splits node.splits sum.splits)
  note ih = "3.IH" [OF ds refl c]
  show ?case
  proof (cases q rule: path_cases)
    case 1
    then show ?thesis by simp
  next
    case (2 k)
    then show ?thesis using ds es'
      by (auto simp: update_conv' split: option.splits node.splits if_splits)
  next
    case (3 k j r)
    then show ?thesis using ds es' ih [of "j # r"]
      by (auto simp: update_conv' split: option.splits node.splits if_splits)
  qed
qed

lemma unlink_tree_Inl: "unlink_tree p es = Inl e \<Longrightarrow> \<nexists>f. lookup es p = Some (File f)"
  by (induction p es arbitrary: e rule: unlink_tree.induct)
     (auto split: option.splits node.splits sum.splits)

lemma unlink_tree_file:
  "unlink_tree p es = Inr es' \<Longrightarrow>
   (\<exists>f. lookup es' q = Some (File f)) \<longleftrightarrow> q \<noteq> p \<and> (\<exists>f. lookup es q = Some (File f))"
proof (induction p es arbitrary: es' q rule: unlink_tree.induct)
  case (1 es)
  then show ?case by simp
next
  case (2 n es)
  show ?case
  proof (cases q rule: path_cases)
    case 1
    then show ?thesis by simp
  next
    case (2 k)
    then show ?thesis using "2.prems"
      by (auto simp: delete_conv' split: option.splits node.splits if_splits)
  next
    case (3 k j r)
    then show ?thesis using "2.prems"
      by (auto simp: delete_conv' split: option.splits node.splits if_splits)
  qed
next
  case (3 n m p es)
  from "3.prems" obtain ds ds' where ds: "map_of es n = Some (Dir ds)"
    and c: "unlink_tree (m # p) ds = Inr ds'" and es': "es' = AList.update n (Dir ds') es"
    by (auto split: option.splits node.splits sum.splits)
  note ih = "3.IH" [OF ds refl c]
  show ?case
  proof (cases q rule: path_cases)
    case 1
    then show ?thesis by simp
  next
    case (2 k)
    then show ?thesis using ds es'
      by (auto simp: update_conv' split: option.splits node.splits if_splits)
  next
    case (3 k j r)
    then show ?thesis using ds es' ih [of "j # r"]
      by (auto simp: update_conv' split: option.splits node.splits if_splits)
  qed
qed

lemma delete_one_file:
  assumes "\<exists>f. lookup (fst (fst (delete_one p st))) q = Some (File f)"
  shows "\<exists>f. lookup (fst (fst st)) q = Some (File f)"
proof (cases "chmod_644 p (fst st)")
  case (Inl e)
  then show ?thesis using assms by (simp add: delete_one_def)
next
  case (Inr st1)
  then have c: "chmod_644_tree p (fst (fst st)) = Inr (fst st1)"
    by (auto simp: chmod_644_def split: if_splits sum.splits)
  show ?thesis
  proof (cases "unlink p st1")
    case (Inl e)
    then show ?thesis using assms Inr chmod_644_tree_file [OF c]
      by (simp add: delete_one_def)
  next
    case u: (Inr st2)
    then have "unlink_tree p (fst st1) = Inr (fst st2)"
      by (auto simp: unlink_def split: if_splits sum.splits)
    then show ?thesis using assms Inr u chmod_644_tree_file [OF c, of q]
        unlink_tree_file [of p "fst st1" "fst st2" q]
      by (simp add: delete_one_def)
  qed
qed

lemma below_locked_Cons:
  "below_locked (p # ls) q \<longleftrightarrow>
     (length p < length q \<and> take (length p) q = p) \<or> below_locked ls q"
  by (simp add: below_locked_def)

lemma delete_one_deletes:
  assumes "\<not> below_locked (snd (fst st)) p"
  shows "\<nexists>f. lookup (fst (fst (delete_one p st))) p = Some (File f)"
proof (cases "chmod_644 p (fst st)")
  case (Inl e)
  then have "chmod_644_tree p (fst (fst st)) = Inl e"
    using assms by (auto simp: chmod_644_def split: if_splits sum.splits)
  then have "lookup (fst (fst st)) p = None" by (rule chmod_644_tree_Inl)
  then show ?thesis using Inl by (simp add: delete_one_def)
next
  case (Inr st1)
  then have c: "chmod_644_tree p (fst (fst st)) = Inr (fst st1)"
    and l: "snd st1 = (if is_dir_at (fst (fst st)) p then p # snd (fst st) else snd (fst st))"
    by (auto simp: chmod_644_def split: if_splits sum.splits)
  have nb: "\<not> below_locked (snd st1) p"
    using assms l by (simp add: below_locked_Cons)
  show ?thesis
  proof (cases "unlink p st1")
    case (Inl e)
    then have "unlink_tree p (fst st1) = Inl e"
      using nb by (auto simp: unlink_def split: if_splits sum.splits)
    then have "\<nexists>f. lookup (fst st1) p = Some (File f)" by (rule unlink_tree_Inl)
    then show ?thesis using Inl Inr by (simp add: delete_one_def)
  next
    case u: (Inr st2)
    then have "unlink_tree p (fst st1) = Inr (fst st2)"
      by (auto simp: unlink_def split: if_splits sum.splits)
    then show ?thesis using Inr u unlink_tree_file [of p "fst st1" "fst st2" p]
      by (simp add: delete_one_def)
  qed
qed

lemma delete_one_locks:
  "set (snd (fst (delete_one p st))) \<subseteq> insert p (set (snd (fst st)))"
  by (auto simp: delete_one_def chmod_644_def unlink_def split: sum.splits if_splits)

lemma fold_delete_one_deletes:
  assumes "\<forall>q\<in>set ls \<union> set ps. \<not> (length q < length p \<and> take (length q) p = q)"
    and "p \<in> set ps \<or> (\<nexists>f. lookup es p = Some (File f))"
  shows "\<nexists>f. lookup (fst (fst (fold delete_one ps ((es, ls), cs)))) p = Some (File f)"
  using assms
proof (induction ps arbitrary: es ls cs)
  case Nil
  then show ?case by simp
next
  case (Cons a ps)
  obtain es' ls' cs' where st': "delete_one a ((es, ls), cs) = ((es', ls'), cs')"
    by (metis prod.exhaust)
  have locks: "set ls' \<subseteq> insert a (set ls)"
    using delete_one_locks [of a "((es, ls), cs)"] st' by simp
  have 1: "\<forall>q\<in>set ls' \<union> set ps. \<not> (length q < length p \<and> take (length q) p = q)"
    using Cons.prems(1) locks by auto
  have 2: "p \<in> set ps \<or> (\<nexists>f. lookup es' p = Some (File f))"
  proof (cases "a = p")
    case True
    have "\<not> below_locked ls p"
      using Cons.prems(1) by (auto simp: below_locked_def list_ex_iff)
    then show ?thesis
      using delete_one_deletes [of "((es, ls), cs)" p] st' True by simp
  next
    case False
    then have "p \<in> set ps \<or> (\<nexists>f. lookup es p = Some (File f))"
      using Cons.prems(2) by auto
    then show ?thesis
      using delete_one_file [of a "((es, ls), cs)" p] st' by auto
  qed
  show ?case using Cons.IH [OF 1 2] st' by simp
qed

lemma proper_prefix_last:
  assumes "length q < length p" and "take (length q) p = q" and "q \<noteq> []"
  shows "last q \<in> set (butlast p)"
proof -
  have "q = take (length q) (butlast p)"
    using assms(1,2) by (metis butlast_take length_butlast less_imp_le_nat take_butlast)
  then have "set q \<subseteq> set (butlast p)" by (metis set_take_subset)
  then show ?thesis using assms(3) by auto
qed

text \<open>
  What the cleanup does delete: after it, no path whose last name matches one of the two
  patterns, and none of whose directories has such a name, leads to a file. In
  particular no file is left under a name of the mapper in the \<^verbatim>\<open>eeg\<close> directory of a
  subject after the walker and the cleanup.
\<close>

lemma cleanup_files_deletes:
  assumes "target_name (last p)" and "\<forall>n\<in>set (butlast p). \<not> target_name n"
  shows "\<nexists>f. lookup (fst (fst (cleanup_files root))) p = Some (File f)"
proof -
  let ?ps = "rglob root pattern_cocoa @ rglob root pattern_sasa"
  have named: "q \<noteq> [] \<and> target_name (last q)" if "q \<in> set ?ps" for q
    using that rglob_matches [of q root] by (auto simp: target_name_def)
  have 1: "\<forall>q\<in>set [] \<union> set ?ps. \<not> (length q < length p \<and> take (length q) p = q)"
    using named proper_prefix_last assms(2) by fastforce
  have 2: "p \<in> set ?ps \<or> (\<nexists>f. lookup root p = Some (File f))"
    using assms(1) lookup_rglob [of root p] by (auto simp: target_name_def)
  show ?thesis
    using fold_delete_one_deletes [OF 1 2]
    by (simp add: cleanup_files_def)
qed

lemma get_expected_filename_matches:
  assumes "get_expected_filename d ext = Inr (Some t)"
  shows "target_name t"
  using assms
  unfolding target_name_def glob_match_pattern_cocoa glob_match_pattern_sasa
  by (auto simp: get_expected_filename_def split: sum.splits if_splits)

lemma sub_not_target_name: "startswith d ''sub-'' \<Longrightarrow> \<not> target_name d"
  unfolding target_name_def glob_match_pattern_cocoa glob_match_pattern_sasa
  by (auto simp: startswith_append)

lemma eeg_not_target_name: "\<not> target_name ''eeg''"
  by code_simp

lemma round_trip_deletes_named_targets:
  assumes "startswith d ''sub-''" and "get_expected_filename d ext = Inr (Some t)"
  shows "\<nexists>f. lookup (fst (fst (cleanup_files (fst (recreate_correct_files root)))))
                [d, ''eeg'', t] = Some (File f)"
  using cleanup_files_deletes [of "[d, ''eeg'', t]"]
    get_expected_filename_matches [OF assms(2)] sub_not_target_name [OF assms(1)]
    eeg_not_target_name
  by simp

text \<open>
  Claim C6 fails in the code, through the defect of claim C3. In the \<^verbatim>\<open>eeg\<close> directory of
  \<^verbatim>\<open>sub-001\<close> the name \<^verbatim>\<open>COCOA_013_VO.vmrk\<close> is an empty directory. Before the run there is
  no file inside it. The walker puts its copy of the marker file there, under the name of
  the source, and counts it as created. The cleanup finds \<^verbatim>\<open>COCOA_013_VO.vmrk\<close> and
  \<^verbatim>\<open>COCOA_013_VO.eeg\<close>: it takes the search permission of the directory away and fails
  to unlink it, and deletes the data file. The copy that the walker made of the marker
  file is still there after the round trip.
\<close>

theorem round_trip_keeps_misplaced_copy:
  "lookup [(''sub-001'', Dir [(''eeg'', Dir listing_target_dir)])]
      [''sub-001'', ''eeg'', ''COCOA_013_VO.vmrk'', ''sub-001_task-visualoddball_eeg.vmrk''] = None
 \<and> lookup (fst (recreate_correct_files [(''sub-001'', Dir [(''eeg'', Dir listing_target_dir)])]))
      [''sub-001'', ''eeg'', ''COCOA_013_VO.vmrk'', ''sub-001_task-visualoddball_eeg.vmrk''] =
     Some (File (plain_file ''m1''))
 \<and> rglob (fst (recreate_correct_files [(''sub-001'', Dir [(''eeg'', Dir listing_target_dir)])]))
      pattern_cocoa
      @ rglob (fst (recreate_correct_files [(''sub-001'', Dir [(''eeg'', Dir listing_target_dir)])]))
          pattern_sasa =
     [[''sub-001'', ''eeg'', ''COCOA_013_VO.vmrk''], [''sub-001'', ''eeg'', ''COCOA_013_VO.eeg'']]
 \<and> snd (cleanup_files
          (fst (recreate_correct_files [(''sub-001'', Dir [(''eeg'', Dir listing_target_dir)])]))) =
     \<lparr>deleted_count = 1, delete_error_count = 1\<rparr>
 \<and> file_paths (fst (fst (cleanup_files
      (fst (recreate_correct_files [(''sub-001'', Dir [(''eeg'', Dir listing_target_dir)])]))))) =
     [[''sub-001'', ''eeg'', ''sub-001_task-visualoddball_eeg.vmrk''],
      [''sub-001'', ''eeg'', ''sub-001_task-visualoddball_eeg.eeg''],
      [''sub-001'', ''eeg'', ''COCOA_013_VO.vmrk'', ''sub-001_task-visualoddball_eeg.vmrk'']]
 \<and> lookup (fst (fst (cleanup_files
      (fst (recreate_correct_files [(''sub-001'', Dir [(''eeg'', Dir listing_target_dir)])])))))
      [''sub-001'', ''eeg'', ''COCOA_013_VO.vmrk'', ''sub-001_task-visualoddball_eeg.vmrk''] =
     Some (File (plain_file ''m1''))"
  by code_simp

text \<open>The names \<^verbatim>\<open>SUBJECT_...\<close> of the earlier script \<^verbatim>\<open>fix_vmrk_files.py\<close> match neither
  pattern and survive the cleanup.\<close>

lemma fix_vmrk_files_round_trip:
  "file_paths (fst (fst (cleanup_files (fst (fix_vmrk_files
     [subject_tree ''sub-100'' (plain_file ''m'') (plain_file ''d'')]))))) =
     [[''sub-100'', ''eeg'', ''sub-100_task-visualoddball_eeg.vmrk''],
      [''sub-100'', ''eeg'', ''sub-100_task-visualoddball_eeg.eeg''],
      [''sub-100'', ''eeg'', ''SUBJECT_100_VO.vmrk''],
      [''sub-100'', ''eeg'', ''SUBJECT_100_VO.eeg'']]"
  by code_simp

end
